theory Spec2Isabelle
  imports Main "HOL-Library.AList" "HOL-Library.Char_ord" "HOL-Library.List_Lexorder"
begin

section \<open>tap-apple-search-ads: the entry module\<close>

text \<open>
  A shallow embedding of \<^verbatim>\<open>tap_apple_search_ads/__init__.py\<close>. Exceptions are values
  of the sum type \<open>error + 'a\<close> (\<open>Inl\<close> the exception), the module-level handle
  \<^verbatim>\<open>cache\<close>, the file system and everything the run writes or calls are fields of an
  explicit \<open>world\<close> that every effectful function takes and returns.
\<close>

subsection \<open>Exceptions\<close>

datatype error =
    TapAppleSearchAdsException string
  | OSError string
  | KeyError string
  | ValueError string
  | SigningError string
  | AuthExchangeError "nat option" string
  | ShelveOpenError string
  | CollaboratorError string

subsection \<open>Values of the authentication pipeline\<close>

record SignedSecret =
  ss_token :: string
  ss_issued_at :: int
  ss_expires_at :: int

record AccessTokenValue =
  atv_token :: string
  atv_expires_at :: int

record RequestHeadersValue =
  rhv_org_id :: string
  rhv_authorization :: string

subsection \<open>The durable cache\<close>

datatype stage_kind = KClientSecret | KAccessToken | KRequestHeaders

datatype cached_value =
    CSV SignedSecret
  | ATV AccessTokenValue
  | RHV RequestHeadersValue

record CacheEntry =
  ce_value :: cached_value
  ce_expires_at :: int

type_synonym store = "(stage_kind \<times> CacheEntry) list"

text \<open>A shelf is named by the file it was opened on.\<close>

type_synonym shelf = string

subsection \<open>What a run does to the outside\<close>

type_synonym api_record = "(string \<times> string) list"

datatype bval = BStr string | BInt int

type_synonym state = "((string \<times> string) \<times> bval) list"

datatype event =
    ClockRead int
  | ReadFile string
  | ShelveOpen string
  | Signed
  | Exchanged
  | Built
  | CacheWrite stage_kind
  | Evaluated RequestHeadersValue
  | ApiCall string RequestHeadersValue
  | WriteSchema string
  | WriteRecord string api_record
  | WriteState state

text \<open>
  The file system as the run meets it. Paths are the strings handed to the operating
  system. \<open>aliases\<close> lists the paths that name the same file as another path (a
  symbolic link, a way through \<^verbatim>\<open>..\<close>, a relative path), each with the path it stands
  for; a path that is not listed stands for itself. \<open>nodes\<close> are the files that exist,
  each a directory or a regular file; \<open>unopenable\<close> the files at which the dbm layer
  under \<^verbatim>\<open>shelve.open\<close> refuses to open or create a database (no permission, a file of
  another format); \<open>shelf_files\<close> the shelves on disk. Then the module-level handle
  \<^verbatim>\<open>cache\<close>, and the log.
\<close>

datatype node = Directory | RegularFile

record world =
  aliases :: "(string \<times> string) list"
  nodes :: "(string \<times> node) list"
  unopenable :: "string list"
  shelf_files :: "(shelf \<times> store) list"
  cache_global :: "shelf option"
  events :: "event list"

definition emit :: "event \<Rightarrow> world \<Rightarrow> world" where
  "emit e w = w\<lparr>events := events w @ [e]\<rparr>"

subsection \<open>The stage objects\<close>

text \<open>
  The arguments the entry module constructs the three stages with
  (\<^verbatim>\<open>client_secret.Headers\<close>, \<^verbatim>\<open>client_secret.Payload\<close>, \<^verbatim>\<open>auth.ClientSecret\<close>,
  \<^verbatim>\<open>auth.AccessToken\<close>, \<^verbatim>\<open>auth.RequestHeaders\<close>), and the decorator shape of
  \<^verbatim>\<open>auth.cache\<close>: a caching stage holds the stage it wraps and the shelf.
\<close>

record Headers =
  h_key_id :: string
  h_algorithm :: string

record Payload =
  p_client_id :: string
  p_team_id :: string
  p_audience :: string

record ClientSecret =
  cs_timestamp :: int
  cs_expiration_time :: int
  cs_headers :: Headers
  cs_payload :: Payload

record AccessToken =
  at_client_id :: string
  at_url :: string

record RequestHeaders =
  rh_org_id :: string

datatype 'a stage = Direct 'a | Cached "'a stage" shelf

record Authentication =
  key_id :: string
  algorithm :: string
  client_id :: string
  team_id :: string
  audience :: string
  expiration_time :: int
  url :: string
  org_id :: string
  local_caching :: bool
  tmp_dir :: string
  auth_cache_file :: string
  start_time :: "int option"
  end_time :: "int option"
  selector :: "string option"

record additional =
  ad_start_time :: "int option"
  ad_end_time :: "int option"
  ad_selector :: "string option"

record CatalogEntry =
  tap_stream_id :: string
  selected :: bool

subsection \<open>Collaborators\<close>

text \<open>
  The modules \<^verbatim>\<open>tap_apple_search_ads.api\<close> and \<^verbatim>\<open>tap_apple_search_ads.config\<close>, the
  clock and the network are not part of the entry module. The functions of theirs that
  the entry module calls are fields of \<open>env\<close>, left uninterpreted.
\<close>

record env =
  read_private_key_from_file :: "string \<Rightarrow> error + string"
  from_mapping :: "(string \<rightharpoonup> string) \<Rightarrow> error + Authentication"
  jwt_encode :: "string \<Rightarrow> ClientSecret \<Rightarrow> error + string"
  post :: "string \<Rightarrow> string \<Rightarrow> string \<Rightarrow> (nat option \<times> string)"
  parse_token_body :: "string \<Rightarrow> (string \<times> int) option"
  exchange_time :: int
  now :: int
  campaign_sync :: "RequestHeadersValue \<Rightarrow> error + api_record list"
  campaign_to_schema :: "api_record \<Rightarrow> error + api_record"
  reports_sync :: "RequestHeadersValue \<Rightarrow> int option \<Rightarrow> int option \<Rightarrow> string option \<Rightarrow> error + api_record list"
  reports_sync_extended_spend_row :: "RequestHeadersValue \<Rightarrow> int option \<Rightarrow> int option \<Rightarrow> string option \<Rightarrow> error + api_record list"
  reports_flatten :: "api_record \<Rightarrow> error + api_record"
  impression_sync :: "RequestHeadersValue \<Rightarrow> int option \<Rightarrow> int option \<Rightarrow> string \<Rightarrow> error + api_record list"
  strptime_to_utc :: "bval \<Rightarrow> error + int"
  today :: int

subsection \<open>\<^verbatim>\<open>load_private_key\<close>\<close>

text \<open>
  \<^verbatim>\<open>
  def load_private_key(config):
      if "private_key_value" in config:
          private_key = config["private_key_value"]
      elif "private_key_file" in config:
          private_key_file = config["private_key_file"]
          private_key = auth.utils.read_private_key_from_file(private_key_file)
      else:
          raise TapAppleSearchAdsException("Missing private key configuration parameters")
      return private_key
  \<close>
  Reading the file is recorded as an event before the reader's result is returned.
\<close>

definition load_private_key ::
  "env \<Rightarrow> (string \<rightharpoonup> string) \<Rightarrow> world \<Rightarrow> (error + string) \<times> world" where
  "load_private_key E config w =
     (case config ''private_key_value'' of
        Some private_key \<Rightarrow> (Inr private_key, w)
      | None \<Rightarrow>
          (case config ''private_key_file'' of
             Some private_key_file \<Rightarrow>
               (read_private_key_from_file E private_key_file, emit (ReadFile private_key_file) w)
           | None \<Rightarrow>
               (Inl (TapAppleSearchAdsException ''Missing private key configuration parameters''), w)))"

subsection \<open>\<^verbatim>\<open>set_up_authentication\<close> and \<^verbatim>\<open>add_caching\<close>\<close>

text \<open>
  \<^verbatim>\<open>
  def set_up_authentication(timestamp, config_):
      headers = client_secret.Headers(config_.key_id, config_.algorithm)
      payload = client_secret.Payload(config_.client_id, config_.team_id, config_.audience)
      client_secret_ = auth.ClientSecret(timestamp, config_.expiration_time, headers, payload)
      access_token = auth.AccessToken(config_.client_id, config_.url)
      request_headers = auth.RequestHeaders(config_.org_id)
      return client_secret_, access_token, request_headers
  \<close>
\<close>

definition set_up_authentication ::
  "int \<Rightarrow> Authentication \<Rightarrow> ClientSecret stage \<times> AccessToken stage \<times> RequestHeaders stage" where
  "set_up_authentication timestamp config' =
     (let headers = \<lparr>h_key_id = key_id config', h_algorithm = algorithm config'\<rparr>;
          payload = \<lparr>p_client_id = client_id config', p_team_id = team_id config',
                     p_audience = audience config'\<rparr>;
          client_secret' = \<lparr>cs_timestamp = timestamp,
                            cs_expiration_time = expiration_time config',
                            cs_headers = headers, cs_payload = payload\<rparr>;
          access_token = \<lparr>at_client_id = client_id config', at_url = url config'\<rparr>;
          request_headers = \<lparr>rh_org_id = org_id config'\<rparr>
      in (Direct client_secret', Direct access_token, Direct request_headers))"

text \<open>
  \<^verbatim>\<open>
  def add_caching(client_secret, access_token, request_headers, cache):
      return (auth.cache.ClientSecret(client_secret, cache),
              auth.cache.AccessToken(access_token, cache),
              auth.cache.RequestHeaders(request_headers, cache))
  \<close>
\<close>

definition add_caching ::
  "ClientSecret stage \<times> AccessToken stage \<times> RequestHeaders stage \<Rightarrow> shelf
     \<Rightarrow> ClientSecret stage \<times> AccessToken stage \<times> RequestHeaders stage" where
  "add_caching auth_objects cache =
     (case auth_objects of (client_secret, access_token, request_headers) \<Rightarrow>
        (Cached client_secret cache, Cached access_token cache, Cached request_headers cache))"

subsection \<open>Paths\<close>

text \<open>
  \<^verbatim>\<open>pathlib.Path\<close> in its POSIX flavour. A path is a root (\<open>/\<close>, \<open>//\<close> or none) and the
  list of its components: parsing splits at \<open>/\<close> and drops empty components and \<open>.\<close>;
  exactly two leading slashes are kept as the root \<open>//\<close>, one or three and more are the root
  \<open>/\<close>. \<^verbatim>\<open>as_posix()\<close> joins the components again, and prints \<open>.\<close> for the path with no
  root and no components. \<^verbatim>\<open>p / s\<close> is the path of \<open>s\<close> when \<open>s\<close> is absolute, and else
  \<open>p\<close> followed by the components of \<open>s\<close>.
\<close>

type_synonym path = "string \<times> string list"

fun split_slash :: "string \<Rightarrow> string list" where
  "split_slash [] = [[]]"
| "split_slash (c # cs) =
     (if c = CHR ''/'' then [] # split_slash cs
      else (case split_slash cs of [] \<Rightarrow> [[c]] | p # ps \<Rightarrow> (c # p) # ps))"

definition path_root :: "string \<Rightarrow> string" where
  "path_root s =
     (if take 2 s = ''//'' \<and> take 3 s \<noteq> ''///'' then ''//''
      else if take 1 s = ''/'' then ''/''
      else [])"

definition path_parts :: "string \<Rightarrow> string list" where
  "path_parts s = filter (\<lambda>p. p \<noteq> [] \<and> p \<noteq> ''.'') (split_slash s)"

definition Path :: "string \<Rightarrow> path" where
  "Path s = (path_root s, path_parts s)"

fun join_slash :: "string list \<Rightarrow> string" where
  "join_slash [] = []"
| "join_slash [p] = p"
| "join_slash (p # q # ps) = p @ ''/'' @ join_slash (q # ps)"

definition as_posix :: "path \<Rightarrow> string" where
  "as_posix p =
     (case p of (root, parts) \<Rightarrow>
        if root = [] \<and> parts = [] then ''.'' else root @ join_slash parts)"

definition joinpath :: "path \<Rightarrow> string \<Rightarrow> path" where
  "joinpath p s =
     (case p of (root, parts) \<Rightarrow>
        if path_root s \<noteq> [] then Path s else (root, parts @ path_parts s))"

definition parent :: "path \<Rightarrow> path" where
  "parent p = (case p of (root, parts) \<Rightarrow> (root, butlast parts))"

text \<open>The file a path string names, and its kind when it exists.\<close>

definition file_of :: "world \<Rightarrow> string \<Rightarrow> string" where
  "file_of w s = (case map_of (aliases w) s of None \<Rightarrow> s | Some f \<Rightarrow> f)"

definition node_at :: "world \<Rightarrow> path \<Rightarrow> node option" where
  "node_at w p = map_of (nodes w) (file_of w (as_posix p))"

text \<open>\<^verbatim>\<open>Path.exists()\<close>: true of a directory and of a regular file.\<close>

definition path_exists :: "world \<Rightarrow> path \<Rightarrow> bool" where
  "path_exists w p = (node_at w p \<noteq> None)"

subsection \<open>\<^verbatim>\<open>get_or_create_cache\<close>\<close>

text \<open>
  \<^verbatim>\<open>
  cache: Optional[shelve.Shelf] = None

  def get_or_create_cache(cache_dir, cache_file):
      global cache
      if cache:
          return cache
      cache_dir_ = pathlib.Path(cache_dir)
      if not cache_dir_.exists():
          raise OSError("Cache directory [{}] does not exist".format(cache_dir_.as_posix()))
      cache_file_ = cache_dir_ / cache_file
      cache = shelve.open(cache_file_.as_posix())
      return cache
  \<close>
  \<^verbatim>\<open>if cache:\<close> asks for the truth value of the handle. \<^verbatim>\<open>None\<close> is false; a
  \<^verbatim>\<open>shelve.Shelf\<close> is a \<^verbatim>\<open>MutableMapping\<close> with \<^verbatim>\<open>__len__\<close> and no \<^verbatim>\<open>__bool__\<close>, so it is
  true exactly when it holds at least one key.
\<close>

definition shelf_store :: "world \<Rightarrow> shelf \<Rightarrow> store" where
  "shelf_store w h = (case map_of (shelf_files w) h of None \<Rightarrow> [] | Some s \<Rightarrow> s)"

definition truthy :: "world \<Rightarrow> shelf option \<Rightarrow> bool" where
  "truthy w c = (case c of None \<Rightarrow> False | Some h \<Rightarrow> shelf_store w h \<noteq> [])"

text \<open>
  \<^verbatim>\<open>shelve.open(path)\<close>, flag \<^verbatim>\<open>'c'\<close>: the database is created when it is missing and keeps
  its contents otherwise. It raises when the directory the file is to live in is not an
  existing directory (it is missing, or a regular file), and when the dbm layer refuses
  the file; the exception is the backend's, an \<^verbatim>\<open>OSError\<close> or a \<^verbatim>\<open>dbm.error\<close>, and is written
  \<open>ShelveOpenError\<close> with the path. A failed open creates nothing and is not logged. Two
  paths that name one file open the same shelf.
\<close>

definition shelve_open :: "path \<Rightarrow> world \<Rightarrow> (error + shelf) \<times> world" where
  "shelve_open p w =
     (if node_at w (parent p) \<noteq> Some Directory
         \<or> file_of w (as_posix p) \<in> set (unopenable w)
      then (Inl (ShelveOpenError (as_posix p)), w)
      else
        (Inr (file_of w (as_posix p)),
         emit (ShelveOpen (as_posix p))
           (w\<lparr>shelf_files :=
                AList.update (file_of w (as_posix p))
                  (shelf_store w (file_of w (as_posix p))) (shelf_files w)\<rparr>)))"

definition get_or_create_cache :: "string \<Rightarrow> string \<Rightarrow> world \<Rightarrow> (error + shelf) \<times> world" where
  "get_or_create_cache cache_dir cache_file w =
     (if truthy w (cache_global w) then (Inr (the (cache_global w)), w)
      else
        (let cache_dir' = Path cache_dir in
         if \<not> path_exists w cache_dir'
         then (Inl (OSError (''Cache directory ['' @ as_posix cache_dir' @ ''] does not exist'')),
               w)
         else
           (let cache_file' = joinpath cache_dir' cache_file in
            case shelve_open cache_file' w of
              (Inl e, w') \<Rightarrow> (Inl e, w')
            | (Inr cache, w') \<Rightarrow> (Inr cache, w'\<lparr>cache_global := Some cache\<rparr>))))"

subsection \<open>The three stages and the caching proxy\<close>

text \<open>
  Modelled from the spec: \<^verbatim>\<open>auth.ClientSecret.value\<close> is missing from the sources; this
  is the SecretSigner of section 4.1. The secret has \<open>issued_at = now\<close> and
  \<open>expires_at = now + expiration\<close>, with \<open>now\<close> the timestamp and \<open>expiration\<close> the
  duration the stage was constructed with. Signing itself is the collaborator
  \<open>jwt_encode\<close> and may fail; the failure is propagated. The invocation is logged.
\<close>

definition sign :: "env \<Rightarrow> ClientSecret \<Rightarrow> string \<Rightarrow> world \<Rightarrow> (error + SignedSecret) \<times> world" where
  "sign E c private_key w =
     (case jwt_encode E private_key c of
        Inl e \<Rightarrow> (Inl e, emit Signed w)
      | Inr tok \<Rightarrow>
          (Inr \<lparr>ss_token = tok, ss_issued_at = cs_timestamp c,
                ss_expires_at = cs_timestamp c + cs_expiration_time c\<rparr>,
           emit Signed w))"

text \<open>
  Modelled from the spec: \<^verbatim>\<open>auth.AccessToken.value\<close> is missing from the sources; this
  is the TokenExchanger of section 4.2. One network call (\<open>post\<close>, with the URL, the
  client id and the signed secret), logged. A transport failure (no status), a status
  outside 200..299 or a body that does not parse fails with \<open>AuthExchangeError\<close> carrying
  the status and the body. The token expires at the exchange time plus the lifetime the
  response declares.
\<close>

definition exchange ::
  "env \<Rightarrow> AccessToken \<Rightarrow> SignedSecret \<Rightarrow> world \<Rightarrow> (error + AccessTokenValue) \<times> world" where
  "exchange E a secret w =
     (case post E (at_url a) (at_client_id a) (ss_token secret) of
        (None, body) \<Rightarrow> (Inl (AuthExchangeError None body), emit Exchanged w)
      | (Some status, body) \<Rightarrow>
          (if 200 \<le> status \<and> status < 300 then
             (case parse_token_body E body of
                None \<Rightarrow> (Inl (AuthExchangeError (Some status) body), emit Exchanged w)
              | Some (tok, expires_in) \<Rightarrow>
                  (Inr \<lparr>atv_token = tok, atv_expires_at = exchange_time E + expires_in\<rparr>,
                   emit Exchanged w))
           else (Inl (AuthExchangeError (Some status) body), emit Exchanged w)))"

text \<open>
  Modelled from the spec: \<^verbatim>\<open>auth.RequestHeaders.value\<close> is missing from the sources;
  this is the HeaderBuilder of section 4.3: the tenant identifier and the bearer
  authorization, a pure function that cannot fail. The invocation is logged.
\<close>

definition build :: "RequestHeaders \<Rightarrow> AccessTokenValue \<Rightarrow> world \<Rightarrow> (error + RequestHeadersValue) \<times> world" where
  "build r tok w =
     (Inr \<lparr>rhv_org_id = rh_org_id r, rhv_authorization = ''Bearer '' @ atv_token tok\<rparr>,
      emit Built w)"

text \<open>
  Modelled from the spec: the durable store's \<^verbatim>\<open>put\<close> as \<^verbatim>\<open>auth.cache\<close> (missing from
  the sources) uses it, section 4.4 step 3: the entry is stored under the stage's key,
  overwriting any prior entry for that key. The write is logged.
\<close>

definition persist :: "shelf \<Rightarrow> stage_kind \<Rightarrow> CacheEntry \<Rightarrow> world \<Rightarrow> world" where
  "persist h k e w =
     emit (CacheWrite k)
       (w\<lparr>shelf_files := AList.update h (AList.update k e (shelf_store w h)) (shelf_files w)\<rparr>)"

text \<open>
  Modelled from the spec: the freshness test of section 4.4 steps 1 and 2. The entry
  under the stage's key is live when it is present and \<open>entry.expires_at > now\<close>. The
  wrappers are constructed without an instant (see \<open>add_caching\<close>), so the instant
  \<open>now E\<close> they compare with is a parameter of the evaluation.
\<close>

definition live :: "env \<Rightarrow> world \<Rightarrow> shelf \<Rightarrow> stage_kind \<Rightarrow> cached_value option" where
  "live E w h k =
     (case map_of (shelf_store w h) k of
        None \<Rightarrow> None
      | Some e \<Rightarrow> if ce_expires_at e > now E then Some (ce_value e) else None)"

text \<open>
  Modelled from the spec: \<^verbatim>\<open>auth.cache\<close> is missing from the sources; this is the
  CachingProxy of section 4.4. A live entry that deserialises (\<open>dec\<close>) to a value of the
  stage's kind is returned without invoking the wrapped stage. Otherwise (absent,
  expired, or unreadable, which is a miss and not an error) the wrapped stage is invoked
  and, when it succeeds, its value is persisted under the key with the value's expiry
  and returned; when it fails, the failure is propagated and nothing is stored.
\<close>

definition proxy ::
  "env \<Rightarrow> shelf \<Rightarrow> stage_kind \<Rightarrow> (cached_value \<Rightarrow> 'v option) \<Rightarrow> ('v \<Rightarrow> cached_value) \<Rightarrow> ('v \<Rightarrow> int)
     \<Rightarrow> (world \<Rightarrow> (error + 'v) \<times> world) \<Rightarrow> world \<Rightarrow> (error + 'v) \<times> world" where
  "proxy E h k dec enc expiry compute w =
     (case Option.bind (live E w h k) dec of
        Some v \<Rightarrow> (Inr v, w)
      | None \<Rightarrow>
          (case compute w of
             (Inl e, w') \<Rightarrow> (Inl e, w')
           | (Inr v, w') \<Rightarrow>
               (Inr v, persist h k \<lparr>ce_value = enc v, ce_expires_at = expiry v\<rparr> w')))"

text \<open>
  Modelled from the spec: deserialising a cache entry for each stage kind (section 4.4,
  failure semantics); an entry that holds a value of another kind is unreadable.
\<close>

fun as_secret :: "cached_value \<Rightarrow> SignedSecret option" where
  "as_secret (CSV v) = Some v"
| "as_secret _ = None"

fun as_token :: "cached_value \<Rightarrow> AccessTokenValue option" where
  "as_token (ATV v) = Some v"
| "as_token _ = None"

fun as_headers :: "cached_value \<Rightarrow> RequestHeadersValue option" where
  "as_headers (RHV v) = Some v"
| "as_headers _ = None"

text \<open>
  Modelled from the spec: the \<^verbatim>\<open>value\<close> method of each stage, plain (sections 4.1 to
  4.3) or wrapped by the proxy (section 4.4). The headers have no expiry of their own;
  their cache entry inherits the expiry of the access token they were built from
  (section 3).
\<close>

fun cs_value :: "env \<Rightarrow> ClientSecret stage \<Rightarrow> string \<Rightarrow> world \<Rightarrow> (error + SignedSecret) \<times> world" where
  "cs_value E (Direct c) private_key = sign E c private_key"
| "cs_value E (Cached s h) private_key =
     proxy E h KClientSecret as_secret CSV ss_expires_at (cs_value E s private_key)"

fun at_value ::
  "env \<Rightarrow> AccessToken stage \<Rightarrow> SignedSecret \<Rightarrow> world \<Rightarrow> (error + AccessTokenValue) \<times> world" where
  "at_value E (Direct a) secret = exchange E a secret"
| "at_value E (Cached s h) secret =
     proxy E h KAccessToken as_token ATV atv_expires_at (at_value E s secret)"

fun rh_value ::
  "env \<Rightarrow> RequestHeaders stage \<Rightarrow> AccessTokenValue \<Rightarrow> world \<Rightarrow> (error + RequestHeadersValue) \<times> world" where
  "rh_value E (Direct r) tok = build r tok"
| "rh_value E (Cached s h) tok =
     proxy E h KRequestHeaders as_headers RHV (\<lambda>_. atv_expires_at tok) (rh_value E s tok)"

text \<open>
  Line 111 of the entry module, \<^verbatim>\<open>rh.value(at.value(cs.value(private_key)))\<close>: Python
  evaluates the innermost call first, so \<^verbatim>\<open>cs.value\<close> runs, then \<^verbatim>\<open>at.value\<close> on its
  result, then \<^verbatim>\<open>rh.value\<close>; an exception in one skips the calls around it.
\<close>

definition request_headers_value ::
  "env \<Rightarrow> ClientSecret stage \<times> AccessToken stage \<times> RequestHeaders stage \<Rightarrow> string \<Rightarrow> world
     \<Rightarrow> (error + RequestHeadersValue) \<times> world" where
  "request_headers_value E auth_objects private_key w =
     (case auth_objects of (cs, at, rh) \<Rightarrow>
        (case cs_value E cs private_key w of
           (Inl e, w1) \<Rightarrow> (Inl e, w1)
         | (Inr secret, w1) \<Rightarrow>
             (case at_value E at secret w1 of
                (Inl e, w2) \<Rightarrow> (Inl e, w2)
              | (Inr tok, w2) \<Rightarrow> rh_value E rh tok w2)))"

subsection \<open>\<^verbatim>\<open>sync_concrete_stream\<close> and \<^verbatim>\<open>sync_stream\<close>\<close>

definition STREAMS :: "string list" where
  "STREAMS = [''campaign'', ''campaign_flat'', ''campaign_level_reports'',
     ''campaign_level_reports_extended_spend_row'',
     ''campaign_level_reports_extended_spend_row_flat'', ''impression_share_reports'']"

text \<open>
  \<^verbatim>\<open>for record in records: singer.write_record(stream_name, convert(record))\<close>, where the
  conversion (\<^verbatim>\<open>campaign.to_schema\<close>, \<^verbatim>\<open>campaign_level_reports.flatten\<close>, or none) may
  raise; the records written before stay written.
\<close>

fun write_records ::
  "string \<Rightarrow> (api_record \<Rightarrow> error + api_record) \<Rightarrow> api_record list \<Rightarrow> world \<Rightarrow> (error + unit) \<times> world" where
  "write_records stream_name conv [] w = (Inr (), w)"
| "write_records stream_name conv (record # records) w =
     (case conv record of
        Inl e \<Rightarrow> (Inl e, w)
      | Inr record' \<Rightarrow> write_records stream_name conv records (emit (WriteRecord stream_name record') w))"

text \<open>
  A call of one of the API's fetchers with the headers: the fetcher is applied to the
  headers, and the call is logged with the headers it received.
\<close>

definition call_api ::
  "string \<Rightarrow> (RequestHeadersValue \<Rightarrow> error + api_record list) \<Rightarrow> RequestHeadersValue \<Rightarrow> world
     \<Rightarrow> (error + api_record list) \<times> world" where
  "call_api api fetch headers w = (fetch headers, emit (ApiCall api headers) w)"

text \<open>
  The shape the first five branches share: call the fetcher with the headers, write each
  record, \<^verbatim>\<open>return state\<close>.
\<close>

definition fetch_and_write ::
  "string \<Rightarrow> string \<Rightarrow> (RequestHeadersValue \<Rightarrow> error + api_record list) \<Rightarrow> RequestHeadersValue
     \<Rightarrow> (api_record \<Rightarrow> error + api_record) \<Rightarrow> state \<Rightarrow> additional \<Rightarrow> world
     \<Rightarrow> (error + state) \<times> additional \<times> world" where
  "fetch_and_write stream_name api fetch headers conv state additional w =
     (case call_api api fetch headers w of
        (Inl e, w1) \<Rightarrow> (Inl e, additional, w1)
      | (Inr records, w1) \<Rightarrow>
          (case write_records stream_name conv records w1 of
             (Inl e, w') \<Rightarrow> (Inl e, additional, w')
           | (Inr u, w') \<Rightarrow> (Inr state, additional, w')))"

text \<open>
  \<^verbatim>\<open>max(record['date'] for record in reports_records)\<close>: \<^verbatim>\<open>KeyError\<close> at the first record
  without a date, \<^verbatim>\<open>ValueError\<close> on no records; strings compare lexicographically.
\<close>

fun dates :: "api_record list \<Rightarrow> error + string list" where
  "dates [] = Inr []"
| "dates (record # records) =
     (case map_of record ''date'' of
        None \<Rightarrow> Inl (KeyError ''date'')
      | Some d \<Rightarrow> (case dates records of Inl e \<Rightarrow> Inl e | Inr ds \<Rightarrow> Inr (d # ds)))"

definition max_report_date :: "api_record list \<Rightarrow> error + string" where
  "max_report_date records =
     (case dates records of
        Inl e \<Rightarrow> Inl e
      | Inr [] \<Rightarrow> Inl (ValueError ''max() arg is an empty sequence'')
      | Inr (d # ds) \<Rightarrow> Inr (fold max ds d))"

text \<open>
  \<^verbatim>\<open>singer.get_bookmark(state, stream, key, default=None)\<close> and
  \<^verbatim>\<open>singer.write_bookmark(state, stream, key, value)\<close> on the bookmarks of the state.
\<close>

definition get_bookmark :: "state \<Rightarrow> string \<Rightarrow> string \<Rightarrow> bval option" where
  "get_bookmark state stream_name key = map_of state (stream_name, key)"

definition write_bookmark :: "state \<Rightarrow> string \<Rightarrow> string \<Rightarrow> bval \<Rightarrow> state" where
  "write_bookmark state stream_name key v = AList.update (stream_name, key) v state"

text \<open>
  The branch for \<^verbatim>\<open>impression_share_reports\<close> (lines 281 to 315). It assigns into the
  \<^verbatim>\<open>additional\<close> dictionary, which the caller shares between streams, so the updated
  dictionary is returned too. One day is 86400 seconds.
\<close>

definition sync_impression_share ::
  "env \<Rightarrow> state \<Rightarrow> string \<Rightarrow> RequestHeadersValue \<Rightarrow> additional \<Rightarrow> world
     \<Rightarrow> (error + state) \<times> additional \<times> world" where
  "sync_impression_share E state stream_name headers additional w =
     (case (case get_bookmark state stream_name ''date'' of
              None \<Rightarrow> Inr additional
            | Some current_bookmark_value \<Rightarrow>
                (case strptime_to_utc E current_bookmark_value of
                   Inl e \<Rightarrow> Inl e
                 | Inr t \<Rightarrow> Inr (additional\<lparr>ad_start_time := Some (t + 86400)\<rparr>))) of
        Inl e \<Rightarrow> (Inl e, additional, w)
      | Inr a1 \<Rightarrow>
          (let a2 = (if ad_end_time a1 = None
                     then a1\<lparr>ad_end_time := Some (today E - 86400)\<rparr> else a1)
           in case call_api ''impression_share_reports.sync''
                     (\<lambda>h. impression_sync E h (ad_start_time a2) (ad_end_time a2)
                            ''custom_reports_selector'')
                     headers w of
                (Inl e, w1) \<Rightarrow> (Inl e, a2, w1)
              | (Inr reports_records, w1) \<Rightarrow>
                  (let w2 = snd (write_records stream_name Inr reports_records w1)
                   in case max_report_date reports_records of
                        Inl e \<Rightarrow> (Inl e, a2, w2)
                      | Inr max_date \<Rightarrow>
                          (Inr (write_bookmark
                                  (write_bookmark state stream_name ''date'' (BStr max_date))
                                  stream_name ''latestRecordCount''
                                  (BInt (int (length reports_records)))),
                           a2, w2))))"

definition sync_concrete_stream ::
  "env \<Rightarrow> state \<Rightarrow> string \<Rightarrow> RequestHeadersValue \<Rightarrow> additional \<Rightarrow> world
     \<Rightarrow> (error + state) \<times> additional \<times> world" where
  "sync_concrete_stream E state stream_name headers additional w =
     (if stream_name = ''campaign'' then
        fetch_and_write stream_name ''campaign.sync'' (campaign_sync E) headers
          Inr state additional w
      else if stream_name = ''campaign_flat'' then
        fetch_and_write stream_name ''campaign.sync'' (campaign_sync E) headers
          (campaign_to_schema E) state additional w
      else if stream_name = ''campaign_level_reports'' then
        fetch_and_write stream_name ''campaign_level_reports.sync''
          (\<lambda>h. reports_sync E h (ad_start_time additional) (ad_end_time additional)
                 (ad_selector additional))
          headers Inr state additional w
      else if stream_name = ''campaign_level_reports_extended_spend_row'' then
        fetch_and_write stream_name ''campaign_level_reports.sync_extended_spend_row''
          (\<lambda>h. reports_sync_extended_spend_row E h (ad_start_time additional)
                 (ad_end_time additional) (ad_selector additional))
          headers Inr state additional w
      else if stream_name = ''campaign_level_reports_extended_spend_row_flat'' then
        fetch_and_write stream_name ''campaign_level_reports.sync_extended_spend_row''
          (\<lambda>h. reports_sync_extended_spend_row E h (ad_start_time additional)
                 (ad_end_time additional) (ad_selector additional))
          headers (reports_flatten E) state additional w
      else if stream_name = ''impression_share_reports'' then
        sync_impression_share E state stream_name headers additional w
      else
        (Inl (TapAppleSearchAdsException (''Unknown stream: ['' @ stream_name @ '']'')),
         additional, w))"

text \<open>
  \<^verbatim>\<open>sync_stream\<close>: a stream that is not selected is skipped; otherwise the schema is
  written, the stream synced and the state written. (Logging and the monotonic timer have
  no effect on the result.)
\<close>

definition sync_stream ::
  "env \<Rightarrow> string \<Rightarrow> CatalogEntry \<Rightarrow> state \<Rightarrow> RequestHeadersValue \<Rightarrow> additional \<Rightarrow> world
     \<Rightarrow> (error + state) \<times> additional \<times> world" where
  "sync_stream E stream_name stream state headers additional w =
     (if \<not> selected stream then (Inr state, additional, w)
      else
        (case sync_concrete_stream E state stream_name headers additional
                (emit (WriteSchema stream_name) w) of
           (Inl e, a, w') \<Rightarrow> (Inl e, a, w')
         | (Inr state', a, w') \<Rightarrow> (Inr state', a, emit (WriteState state') w')))"

subsection \<open>\<^verbatim>\<open>do_sync\<close>\<close>

text \<open>
  The loop \<^verbatim>\<open>for stream in catalog.streams: sync_stream(...)\<close> of lines 119 to 121, with
  the one \<^verbatim>\<open>request_headers_value\<close> and the shared \<^verbatim>\<open>additional_params\<close>.
\<close>

fun sync_streams ::
  "env \<Rightarrow> CatalogEntry list \<Rightarrow> state \<Rightarrow> RequestHeadersValue \<Rightarrow> additional \<Rightarrow> world
     \<Rightarrow> (error + state) \<times> additional \<times> world" where
  "sync_streams E [] state headers additional w = (Inr state, additional, w)"
| "sync_streams E (stream # streams) state headers additional w =
     (case sync_stream E (tap_stream_id stream) stream state headers additional w of
        (Inl e, a, w') \<Rightarrow> (Inl e, a, w')
      | (Inr state', a, w') \<Rightarrow> sync_streams E streams state' headers a w')"

text \<open>
  Lines 102 to 108 of \<^verbatim>\<open>do_sync\<close>: the stage objects for the timestamp, wrapped by the
  caching stages when \<^verbatim>\<open>local_caching\<close> is set.
  \<^verbatim>\<open>
  auth_objects = set_up_authentication(timestamp, config_)
  if config_.local_caching:
      cache = get_or_create_cache(config_.tmp_dir, config_.auth_cache_file)
      auth_objects = add_caching(*auth_objects, cache=cache)
  cs, at, rh = auth_objects
  \<close>
\<close>

definition do_sync_stages ::
  "int \<Rightarrow> Authentication \<Rightarrow> world
     \<Rightarrow> (error + ClientSecret stage \<times> AccessToken stage \<times> RequestHeaders stage) \<times> world" where
  "do_sync_stages timestamp config' w =
     (if local_caching config' then
        (case get_or_create_cache (tmp_dir config') (auth_cache_file config') w of
           (Inl e, w1) \<Rightarrow> (Inl e, w1)
         | (Inr cache, w1) \<Rightarrow>
             (Inr (add_caching (set_up_authentication timestamp config') cache), w1))
      else (Inr (set_up_authentication timestamp config'), w))"

text \<open>
  Lines 97 to 111: the one reading of the clock on line 97 (its value is the argument
  \<open>timestamp\<close>; the reading is logged), the configuration, the stage objects, the private
  key, and the evaluation of the pipeline on line 111, whose value is logged when it is
  assigned.
  \<^verbatim>\<open>
  now = datetime.datetime.now(tz=pytz.utc)
  timestamp = int(now.timestamp())
  config_ = tap_config.Authentication.from_mapping(config)
  ...
  private_key = load_private_key(config)
  request_headers_value = rh.value(at.value(cs.value(private_key)))
  \<close>
\<close>

definition do_sync_headers ::
  "env \<Rightarrow> int \<Rightarrow> (string \<rightharpoonup> string) \<Rightarrow> world \<Rightarrow> (error + Authentication \<times> RequestHeadersValue) \<times> world" where
  "do_sync_headers E timestamp config w =
     (case from_mapping E config of
        Inl e \<Rightarrow> (Inl e, emit (ClockRead timestamp) w)
      | Inr config' \<Rightarrow>
          (case do_sync_stages timestamp config' (emit (ClockRead timestamp) w) of
             (Inl e, w1) \<Rightarrow> (Inl e, w1)
           | (Inr auth_objects, w1) \<Rightarrow>
               (case load_private_key E config w1 of
                  (Inl e, w2) \<Rightarrow> (Inl e, w2)
                | (Inr private_key, w2) \<Rightarrow>
                    (case request_headers_value E auth_objects private_key w2 of
                       (Inl e, w3) \<Rightarrow> (Inl e, w3)
                     | (Inr v, w3) \<Rightarrow> (Inr (config', v), emit (Evaluated v) w3)))))"

definition do_sync ::
  "env \<Rightarrow> int \<Rightarrow> (string \<rightharpoonup> string) \<Rightarrow> CatalogEntry list \<Rightarrow> state \<Rightarrow> world \<Rightarrow> (error + int) \<times> world" where
  "do_sync E timestamp config catalog state w =
     (case do_sync_headers E timestamp config w of
        (Inl e, w3) \<Rightarrow> (Inl e, w3)
      | (Inr (config', request_headers_value'), w3) \<Rightarrow>
          (let additional_params =
                 \<lparr>ad_start_time = start_time config', ad_end_time = end_time config',
                  ad_selector = selector config'\<rparr>
           in case sync_streams E catalog state request_headers_value' additional_params w3 of
                (Inl e, a, w4) \<Rightarrow> (Inl e, w4)
              | (Inr state', a, w4) \<Rightarrow> (Inr 0, w4)))"

subsection \<open>Concrete inputs\<close>

text \<open>
  A configuration, stub collaborators and worlds on which the definitions are evaluated.
  The stub signer's token depends on the timestamp (\<open>s0\<close> at 0, \<open>s1\<close> otherwise); the
  stub endpoint answers 200 with the secret as the bearer token, valid 3600 seconds.
\<close>

definition auth0 :: "bool \<Rightarrow> Authentication" where
  "auth0 caching =
     \<lparr>key_id = ''k1'', algorithm = ''ES256'', client_id = ''c1'', team_id = ''t1'',
      audience = ''a1'', expiration_time = 1200, url = ''https://token'', org_id = ''org1'',
      local_caching = caching, tmp_dir = ''/tmp'', auth_cache_file = ''auth'',
      start_time = None, end_time = None, selector = None\<rparr>"

definition env0 :: env where
  "env0 =
     \<lparr>read_private_key_from_file = (\<lambda>p. Inr ''key-from-file''),
      from_mapping = (\<lambda>m. Inr (auth0 (m ''local_caching'' = Some ''true''))),
      jwt_encode = (\<lambda>k c. Inr (if cs_timestamp c = 0 then ''s0'' else ''s1'')),
      post = (\<lambda>u c s. (Some 200, s)),
      parse_token_body = (\<lambda>b. Some (b, 3600)),
      exchange_time = 0,
      now = 0,
      campaign_sync = (\<lambda>h. Inr [[(''id'', ''1'')]]),
      campaign_to_schema = Inr,
      reports_sync = (\<lambda>h s e sel. Inr []),
      reports_sync_extended_spend_row = (\<lambda>h s e sel. Inr []),
      reports_flatten = Inr,
      impression_sync = (\<lambda>h s e sel. Inr [[(''date'', ''2021-01-01'')]]),
      strptime_to_utc = (\<lambda>b. Inr 0),
      today = 0\<rparr>"

definition config0 :: "string \<rightharpoonup> string" where
  "config0 = [''private_key_value'' \<mapsto> ''inline-key'', ''local_caching'' \<mapsto> ''true'']"

definition world0 :: world where
  "world0 = \<lparr>aliases = [], nodes = [(''/tmp'', Directory)], unopenable = [], shelf_files = [],
     cache_global = None, events = []\<rparr>"

definition headers0 :: RequestHeadersValue where
  "headers0 = \<lparr>rhv_org_id = ''org1'', rhv_authorization = ''Bearer s0''\<rparr>"

text \<open>The stage objects \<open>set_up_authentication\<close> builds for timestamp 0.\<close>

definition cs0 :: "ClientSecret stage" where
  "cs0 = Direct \<lparr>cs_timestamp = 0, cs_expiration_time = 1200,
                  cs_headers = \<lparr>h_key_id = ''k1'', h_algorithm = ''ES256''\<rparr>,
                  cs_payload = \<lparr>p_client_id = ''c1'', p_team_id = ''t1'',
                                p_audience = ''a1''\<rparr>\<rparr>"

definition at0 :: "AccessToken stage" where
  "at0 = Direct \<lparr>at_client_id = ''c1'', at_url = ''https://token''\<rparr>"

definition rh0 :: "RequestHeaders stage" where
  "rh0 = Direct \<lparr>rh_org_id = ''org1''\<rparr>"

definition additional0 :: additional where
  "additional0 = \<lparr>ad_start_time = None, ad_end_time = None, ad_selector = None\<rparr>"

text \<open>The world after \<^verbatim>\<open>get_or_create_cache("/tmp", "auth")\<close> in \<open>world0\<close>: an empty shelf, open.\<close>

definition world1 :: world where
  "world1 = \<lparr>aliases = [], nodes = [(''/tmp'', Directory)], unopenable = [],
     shelf_files = [(''/tmp/auth'', [])],
     cache_global = Some ''/tmp/auth'', events = [ShelveOpen ''/tmp/auth'']\<rparr>"

text \<open>Evaluation at instant 1200, when a secret signed at 0 for 1200 seconds has expired.\<close>

definition env7 :: env where
  "env7 = env0\<lparr>now := 1200, exchange_time := 1200\<rparr>"

text \<open>A process whose open shelf holds one entry, a secret signed at 0 for 1200 seconds.\<close>

definition world7 :: world where
  "world7 = \<lparr>aliases = [], nodes = [(''/tmp'', Directory)], unopenable = [],
     shelf_files = [(''/tmp/auth'',
        [(KClientSecret,
          \<lparr>ce_value = CSV \<lparr>ss_token = ''s0'', ss_issued_at = 0, ss_expires_at = 1200\<rparr>,
           ce_expires_at = 1200\<rparr>)])],
     cache_global = Some ''/tmp/auth'', events = []\<rparr>"

text \<open>A shelf on disk that holds a live access token and nothing else; no handle open yet.\<close>

definition world_at :: world where
  "world_at = \<lparr>aliases = [], nodes = [(''/tmp'', Directory)], unopenable = [],
     shelf_files = [(''/tmp/auth'',
        [(KAccessToken,
          \<lparr>ce_value = ATV \<lparr>atv_token = ''abc'', atv_expires_at = 3600\<rparr>,
           ce_expires_at = 3600\<rparr>)])],
     cache_global = None, events = []\<rparr>"

text \<open>An endpoint that answers 401, and the world a caching run against it leaves.\<close>

definition env401 :: env where
  "env401 = env0\<lparr>post := (\<lambda>u c s. (Some 401, ''denied''))\<rparr>"

definition world401 :: world where
  "world401 = \<lparr>aliases = [], nodes = [(''/tmp'', Directory)], unopenable = [],
     shelf_files = [(''/tmp/auth'',
        [(KClientSecret,
          \<lparr>ce_value = CSV \<lparr>ss_token = ''s0'', ss_issued_at = 0, ss_expires_at = 1200\<rparr>,
           ce_expires_at = 1200\<rparr>)])],
     cache_global = Some ''/tmp/auth'',
     events = [ClockRead 0, ShelveOpen ''/tmp/auth'', Signed, CacheWrite KClientSecret,
               Exchanged]\<rparr>"

text \<open>
  The world a first caching run at timestamp 0 leaves behind in \<open>world0\<close>, and a later
  evaluation at instant 1, while every entry is still live; a configuration without
  local caching.
\<close>

definition world2 :: world where
  "world2 = \<lparr>aliases = [], nodes = [(''/tmp'', Directory)], unopenable = [],
     shelf_files = [(''/tmp/auth'',
        [(KClientSecret,
          \<lparr>ce_value = CSV \<lparr>ss_token = ''s0'', ss_issued_at = 0, ss_expires_at = 1200\<rparr>,
           ce_expires_at = 1200\<rparr>),
         (KAccessToken,
          \<lparr>ce_value = ATV \<lparr>atv_token = ''s0'', atv_expires_at = 3600\<rparr>,
           ce_expires_at = 3600\<rparr>),
         (KRequestHeaders,
          \<lparr>ce_value = RHV \<lparr>rhv_org_id = ''org1'', rhv_authorization = ''Bearer s0''\<rparr>,
           ce_expires_at = 3600\<rparr>)])],
     cache_global = Some ''/tmp/auth'',
     events = [ClockRead 0, ShelveOpen ''/tmp/auth'', Signed, CacheWrite KClientSecret,
               Exchanged, CacheWrite KAccessToken, Built, CacheWrite KRequestHeaders,
               Evaluated \<lparr>rhv_org_id = ''org1'', rhv_authorization = ''Bearer s0''\<rparr>]\<rparr>"

definition env1 :: env where
  "env1 = env0\<lparr>now := 1, exchange_time := 1\<rparr>"

definition config_nocache :: "string \<rightharpoonup> string" where
  "config_nocache = [''private_key_value'' \<mapsto> ''inline-key'']"

text \<open>
  A world in which the cache directory is a regular file, and one in which the dbm layer
  refuses the shelf.
\<close>

definition world_file :: world where
  "world_file = world0\<lparr>nodes := [(''/tmp'', RegularFile)]\<rparr>"

definition world_refused :: world where
  "world_refused = world0\<lparr>unopenable := [''/tmp/auth'']\<rparr>"

text \<open>A world in which \<^verbatim>\<open>/var/cache\<close> is a symbolic link to \<^verbatim>\<open>/tmp\<close>.\<close>

definition world_link :: world where
  "world_link = world0\<lparr>aliases := [(''/var/cache'', ''/tmp''), (''/var/cache/auth'', ''/tmp/auth'')]\<rparr>"

text \<open>Three catalogs: two that sync through, one that meets an unknown stream.\<close>

definition catalog0 :: "CatalogEntry list" where
  "catalog0 = [\<lparr>tap_stream_id = ''campaign'', selected = True\<rparr>,
               \<lparr>tap_stream_id = ''impression_share_reports'', selected = False\<rparr>,
               \<lparr>tap_stream_id = ''campaign_flat'', selected = True\<rparr>]"

definition catalog1 :: "CatalogEntry list" where
  "catalog1 = [\<lparr>tap_stream_id = ''impression_share_reports'', selected = True\<rparr>,
               \<lparr>tap_stream_id = ''campaign_level_reports'', selected = True\<rparr>]"

definition catalog2 :: "CatalogEntry list" where
  "catalog2 = [\<lparr>tap_stream_id = ''campaign'', selected = True\<rparr>,
               \<lparr>tap_stream_id = ''keywords'', selected = True\<rparr>,
               \<lparr>tap_stream_id = ''campaign_flat'', selected = True\<rparr>]"

subsection \<open>Reading the log\<close>

text \<open>How often an event occurs in the log; for a stage event, how often it was invoked.\<close>

definition invocations :: "event \<Rightarrow> world \<Rightarrow> nat" where
  "invocations e w = count_list (events w) e"

text \<open>
  A token-exchange response that is not a success: no status (transport failure), a
  status outside 200..299, or a body that does not parse.
\<close>

definition failed_response :: "env \<Rightarrow> nat option \<Rightarrow> string \<Rightarrow> bool" where
  "failed_response E status body =
     (case status of
        None \<Rightarrow> True
      | Some n \<Rightarrow> \<not> (200 \<le> n \<and> n < 300) \<or> parse_token_body E body = None)"

text \<open>
  The events of a run fall in four groups. The reading of the clock. Before the headers
  are there, the stage events: opening the shelf, reading the key file, invoking a stage,
  writing a cache entry. Then the event that logs the value assigned on line 111. Then the
  events of syncing streams with the headers \<open>v\<close>: schema, record and state messages, and
  calls of the API that carry exactly \<open>v\<close>. A world extends another by events of a kind
  when its log is the other's followed by such events only.
\<close>

fun stage_event :: "event \<Rightarrow> bool" where
  "stage_event (ReadFile p) = True"
| "stage_event (ShelveOpen p) = True"
| "stage_event Signed = True"
| "stage_event Exchanged = True"
| "stage_event Built = True"
| "stage_event (CacheWrite k) = True"
| "stage_event _ = False"

fun is_clock_read :: "event \<Rightarrow> bool" where
  "is_clock_read (ClockRead t) = True"
| "is_clock_read _ = False"

fun stream_event :: "RequestHeadersValue \<Rightarrow> event \<Rightarrow> bool" where
  "stream_event v (ApiCall api h) = (h = v)"
| "stream_event v (WriteSchema n) = True"
| "stream_event v (WriteRecord n r) = True"
| "stream_event v (WriteState s) = True"
| "stream_event v _ = False"

definition extends :: "(event \<Rightarrow> bool) \<Rightarrow> world \<Rightarrow> world \<Rightarrow> bool" where
  "extends P w w' = (\<exists>evs. events w' = events w @ evs \<and> list_all P evs)"

text \<open>The calls of the API in the log, in order.\<close>

fun is_api_call :: "event \<Rightarrow> bool" where
  "is_api_call (ApiCall api h) = True"
| "is_api_call _ = False"

definition calls :: "world \<Rightarrow> event list" where
  "calls w = filter is_api_call (events w)"

text \<open>
  The fetcher each stream calls, and the calls a run owes its catalog: one per selected
  stream, in the order of the catalog, each with the headers \<open>v\<close>.
\<close>

definition api_of :: "string \<Rightarrow> string" where
  "api_of stream_name =
     (if stream_name = ''campaign'' \<or> stream_name = ''campaign_flat'' then ''campaign.sync''
      else if stream_name = ''campaign_level_reports'' then ''campaign_level_reports.sync''
      else if stream_name = ''campaign_level_reports_extended_spend_row''
            \<or> stream_name = ''campaign_level_reports_extended_spend_row_flat''
        then ''campaign_level_reports.sync_extended_spend_row''
      else ''impression_share_reports.sync'')"

definition expected_calls :: "RequestHeadersValue \<Rightarrow> CatalogEntry list \<Rightarrow> event list" where
  "expected_calls v catalog =
     map (\<lambda>stream. ApiCall (api_of (tap_stream_id stream)) v) (filter selected catalog)"

text \<open>The stage inside its caching wrappers.\<close>

fun inner :: "'a stage \<Rightarrow> 'a" where
  "inner (Direct x) = x"
| "inner (Cached s h) = inner s"

section \<open>Theorems\<close>

subsection \<open>Evaluating on concrete inputs\<close>

lemmas path_defs = as_posix_def Path_def path_root_def path_parts_def joinpath_def parent_def
  path_exists_def node_at_def file_of_def

lemmas cache_defs = get_or_create_cache_def truthy_def shelve_open_def shelf_store_def emit_def

lemmas run_defs = do_sync_headers_def do_sync_stages_def add_caching_def
  set_up_authentication_def load_private_key_def request_headers_value_def proxy_def live_def
  persist_def sign_def build_def exchange_def

subsection \<open>The private key\<close>

text \<open>
  C3. If the configuration has the key \<open>private_key_value\<close>, \<open>load_private_key\<close> returns
  that value and reads no file (the world, with its event log, is unchanged). Otherwise,
  if it has \<open>private_key_file\<close>, the result is what reading that path gives, and exactly
  that read is logged. Otherwise it raises \<open>TapAppleSearchAdsException\<close>, the world
  unchanged, and every run with such a configuration ends with an exception.
\<close>

theorem load_private_key_cases:
  "(\<forall>v. config ''private_key_value'' = Some v \<longrightarrow>
        load_private_key E config w = (Inr v, w))
   \<and> (\<forall>p. config ''private_key_value'' = None \<and> config ''private_key_file'' = Some p \<longrightarrow>
        load_private_key E config w
          = (read_private_key_from_file E p, w\<lparr>events := events w @ [ReadFile p]\<rparr>))
   \<and> (config ''private_key_value'' = None \<and> config ''private_key_file'' = None \<longrightarrow>
        load_private_key E config w
          = (Inl (TapAppleSearchAdsException ''Missing private key configuration parameters''), w)
        \<and> (\<exists>e w'. do_sync E timestamp config catalog state w = (Inl e, w')))"
proof (intro conjI allI impI)
  fix v
  assume "config ''private_key_value'' = Some v"
  then show "load_private_key E config w = (Inr v, w)"
    by (simp add: load_private_key_def)
next
  fix p
  assume "config ''private_key_value'' = None \<and> config ''private_key_file'' = Some p"
  then show "load_private_key E config w
          = (read_private_key_from_file E p, w\<lparr>events := events w @ [ReadFile p]\<rparr>)"
    by (simp add: load_private_key_def emit_def)
next
  assume n: "config ''private_key_value'' = None \<and> config ''private_key_file'' = None"
  then have lk: "load_private_key E config w1
          = (Inl (TapAppleSearchAdsException ''Missing private key configuration parameters''), w1)"
    for w1
    by (simp add: load_private_key_def)
  show "load_private_key E config w
          = (Inl (TapAppleSearchAdsException ''Missing private key configuration parameters''), w)"
    by (rule lk)
  have "\<exists>e w'. do_sync_headers E timestamp config w = (Inl e, w')"
    by (simp add: do_sync_headers_def lk split: sum.splits prod.splits)
  then show "\<exists>e w'. do_sync E timestamp config catalog state w = (Inl e, w')"
    by (auto simp: do_sync_def)
qed

theorem load_private_key_cases_witness:
  "load_private_key env0 [''private_key_value'' \<mapsto> ''inline-key'', ''private_key_file'' \<mapsto> ''/k.p8''] world0
     = (Inr ''inline-key'', world0)
   \<and> load_private_key env0 [''private_key_file'' \<mapsto> ''/k.p8''] world0
     = (Inr ''key-from-file'', world0\<lparr>events := [ReadFile ''/k.p8'']\<rparr>)
   \<and> load_private_key env0 Map.empty world0
     = (Inl (TapAppleSearchAdsException ''Missing private key configuration parameters''), world0)
   \<and> (\<exists>e w'. do_sync env0 0 Map.empty catalog0 [] world0 = (Inl e, w'))"
  using load_private_key_cases [of "[''private_key_value'' \<mapsto> ''inline-key'', ''private_key_file'' \<mapsto> ''/k.p8'']" env0 world0]
    load_private_key_cases [of "[''private_key_file'' \<mapsto> ''/k.p8'']" env0 world0]
    load_private_key_cases [of Map.empty env0 world0 0 catalog0 "[]"]
  by (simp add: env0_def world0_def)

subsection \<open>Streams\<close>

lemma fetch_and_write_state:
  "fetch_and_write stream_name api fetch headers conv state additional w = (Inr state', a, w')
   \<Longrightarrow> state' = state"
  by (auto simp: fetch_and_write_def split: sum.splits prod.splits)

lemma sync_concrete_stream_not_known:
  "stream_name \<notin> set STREAMS \<Longrightarrow>
   sync_concrete_stream E state stream_name headers additional w
     = (Inl (TapAppleSearchAdsException (''Unknown stream: ['' @ stream_name @ '']'')), additional, w)"
  by (simp add: sync_concrete_stream_def STREAMS_def)

text \<open>
  C9. For a stream name that is not one of the six of \<open>STREAMS\<close>,
  \<open>sync_concrete_stream\<close> raises \<open>TapAppleSearchAdsException\<close> with the message
  \<open>Unknown stream: [name]\<close>, leaving the dictionary of additional parameters and the
  world as they were. It returns a state only for a known name, and for every known name
  but \<open>impression_share_reports\<close> (which writes bookmarks) the state returned is the one
  passed in.
\<close>

theorem sync_concrete_stream_unknown:
  "(stream_name \<notin> set STREAMS \<longrightarrow>
      sync_concrete_stream E state stream_name headers additional w
        = (Inl (TapAppleSearchAdsException (''Unknown stream: ['' @ stream_name @ '']'')),
           additional, w))
   \<and> (\<forall>state' a w'.
        sync_concrete_stream E state stream_name headers additional w = (Inr state', a, w')
        \<longrightarrow> stream_name \<in> set STREAMS)
   \<and> (\<forall>state' a w'.
        sync_concrete_stream E state stream_name headers additional w = (Inr state', a, w')
        \<and> stream_name \<noteq> ''impression_share_reports'' \<longrightarrow> state' = state)"
proof (intro conjI allI impI)
  assume "stream_name \<notin> set STREAMS"
  then show "sync_concrete_stream E state stream_name headers additional w
        = (Inl (TapAppleSearchAdsException (''Unknown stream: ['' @ stream_name @ '']'')),
           additional, w)"
    by (rule sync_concrete_stream_not_known)
next
  fix state' a w'
  assume r: "sync_concrete_stream E state stream_name headers additional w = (Inr state', a, w')"
  show "stream_name \<in> set STREAMS"
  proof (rule ccontr)
    assume "stream_name \<notin> set STREAMS"
    from sync_concrete_stream_not_known [OF this, of E state headers additional w] r
    show False by simp
  qed
next
  fix state' a w'
  assume "sync_concrete_stream E state stream_name headers additional w = (Inr state', a, w')
            \<and> stream_name \<noteq> ''impression_share_reports''"
  then show "state' = state"
    by (auto simp: sync_concrete_stream_def split: if_splits dest: fetch_and_write_state)
qed

theorem sync_concrete_stream_unknown_witness:
  "''keywords'' \<notin> set STREAMS
   \<and> sync_concrete_stream env0 [] ''keywords'' headers0 additional0 world0
       = (Inl (TapAppleSearchAdsException ''Unknown stream: [keywords]''), additional0, world0)
   \<and> sync_concrete_stream env0 [] ''campaign'' headers0 additional0 world0
       = (Inr [], additional0,
          world0\<lparr>events := [ApiCall ''campaign.sync'' headers0,
                             WriteRecord ''campaign'' [(''id'', ''1'')]]\<rparr>)
   \<and> ''campaign'' \<in> set STREAMS"
  using sync_concrete_stream_unknown [of "''keywords''" env0 "[]" headers0 additional0 world0]
    sync_concrete_stream_unknown [of "''campaign''" env0 "[]" headers0 additional0 world0]
  by (simp add: STREAMS_def sync_concrete_stream_def fetch_and_write_def call_api_def env0_def
      world0_def emit_def)

subsection \<open>The cache handle\<close>

lemma truthy_emit [simp]: "truthy (emit e w) c = truthy w c"
  by (simp add: truthy_def shelf_store_def emit_def split: option.splits)

lemma path_exists_emit [simp]: "path_exists (emit e w) p = path_exists w p"
  by (simp add: path_exists_def node_at_def file_of_def emit_def)

lemma cache_global_emit [simp]: "cache_global (emit e w) = cache_global w"
  by (simp add: emit_def)


lemma get_or_create_cache_reuses_nonempty:
  "cache_global w = Some h \<Longrightarrow> shelf_store w h \<noteq> [] \<Longrightarrow>
   get_or_create_cache cache_dir cache_file w = (Inr h, w)"
  by (simp add: get_or_create_cache_def truthy_def)




text \<open>
  C10. The handle is reused only while the open shelf holds a key (lemma
  \<open>get_or_create_cache_reuses_nonempty\<close>). After a first call has opened a shelf that is
  still empty, a second call does not return it: with a directory that does not exist
  it raises \<open>OSError\<close>, with another file name it opens that other shelf.
\<close>

lemma get_or_create_cache_paths:
  "get_or_create_cache ''/tmp/'' ''./auth'' world0 = (Inr ''/tmp/auth'', world1)
   \<and> get_or_create_cache ''/tmp'' ''auth'' world_file
       = (Inl (ShelveOpenError ''/tmp/auth''), world_file)
   \<and> get_or_create_cache ''/tmp'' ''auth'' world_refused
       = (Inl (ShelveOpenError ''/tmp/auth''), world_refused)
   \<and> fst (get_or_create_cache ''/var/cache'' ''auth'' world_link) = Inr ''/tmp/auth''
   \<and> fst (get_or_create_cache ''/tmp'' ''auth'' world_link) = Inr ''/tmp/auth''"
  by (simp add: cache_defs path_defs world0_def world1_def world_file_def world_refused_def
      world_link_def)

theorem get_or_create_cache_empty_shelf_reopens:
  "get_or_create_cache ''/tmp'' ''auth'' world0 = (Inr ''/tmp/auth'', world1)
   \<and> get_or_create_cache ''/missing'' ''other'' world1
       = (Inl (OSError ''Cache directory [/missing] does not exist''), world1)
   \<and> fst (get_or_create_cache ''/tmp'' ''other'' world1) = Inr ''/tmp/other''"
  by (simp add: cache_defs path_defs world0_def world1_def)

subsection \<open>The shelf, the log and the proxy\<close>

lemma shelf_store_emit [simp]: "shelf_store (emit e w) h = shelf_store w h"
  by (simp add: shelf_store_def emit_def)

lemma shelf_store_persist:
  "shelf_store (persist h k e w) h'
     = (if h' = h then AList.update k e (shelf_store w h) else shelf_store w h')"
  by (simp add: shelf_store_def persist_def emit_def update_conv')

lemma live_emit [simp]: "live E (emit e w) h k = live E w h k"
  by (simp add: live_def)

lemma live_persist_other:
  "k' \<noteq> k \<Longrightarrow> live E (persist h k e w) h' k' = live E w h' k'"
  by (simp add: live_def shelf_store_persist update_conv')

lemma live_expired:
  "map_of (shelf_store w h) k = Some e \<Longrightarrow> ce_expires_at e \<le> now E \<Longrightarrow> live E w h k = None"
  by (simp add: live_def)

lemma live_fresh:
  "map_of (shelf_store w h) k = Some e \<Longrightarrow> now E < ce_expires_at e
   \<Longrightarrow> live E w h k = Some (ce_value e)"
  by (simp add: live_def)

lemma events_emit [simp]: "events (emit e w) = events w @ [e]"
  by (simp add: emit_def)

lemma events_persist [simp]: "events (persist h k e w) = events w @ [CacheWrite k]"
  by (simp add: persist_def)

lemma invocations_emit [simp]:
  "invocations e (emit e' w) = invocations e w + (if e' = e then 1 else 0)"
  by (simp add: invocations_def)

lemma invocations_persist [simp]:
  "invocations e (persist h k x w) = invocations e w + (if CacheWrite k = e then 1 else 0)"
  by (simp add: invocations_def)

lemma snd_sign [simp]: "snd (sign E c pk w) = emit Signed w"
  by (simp add: sign_def split: sum.splits)

lemma snd_exchange [simp]: "snd (exchange E a s w) = emit Exchanged w"
  by (simp add: exchange_def split: sum.splits prod.splits option.splits)

lemma snd_build [simp]: "snd (build r tok w) = emit Built w"
  by (simp add: build_def)

lemma fst_sign: "fst (sign E c pk w) = fst (sign E c pk w')"
  by (simp add: sign_def split: sum.splits)

lemma fst_exchange: "fst (exchange E a s w) = fst (exchange E a s w')"
  by (simp add: exchange_def split: sum.splits prod.splits option.splits)

lemma proxy_hit:
  "Option.bind (live E w h k) dec = Some v \<Longrightarrow> proxy E h k dec enc ex compute w = (Inr v, w)"
  by (simp add: proxy_def)

lemma proxy_miss:
  "Option.bind (live E w h k) dec = None \<Longrightarrow>
   proxy E h k dec enc ex compute w =
     (case compute w of
        (Inl e, w') \<Rightarrow> (Inl e, w')
      | (Inr v, w') \<Rightarrow> (Inr v, persist h k \<lparr>ce_value = enc v, ce_expires_at = ex v\<rparr> w'))"
  by (simp add: proxy_def)

text \<open>The caching ClientSecret stage: a hit returns the entry, a miss signs.\<close>

lemma cs_cached_cases:
  "(\<exists>s. Option.bind (live E w h KClientSecret) as_secret = Some s
        \<and> cs_value E (Cached (Direct c) h) pk w = (Inr s, w))
   \<or> (Option.bind (live E w h KClientSecret) as_secret = None
        \<and> (\<exists>e. cs_value E (Cached (Direct c) h) pk w = (Inl e, emit Signed w)))
   \<or> (Option.bind (live E w h KClientSecret) as_secret = None
        \<and> (\<exists>s x. cs_value E (Cached (Direct c) h) pk w
              = (Inr s, persist h KClientSecret x (emit Signed w))))"
  by (cases "Option.bind (live E w h KClientSecret) as_secret")
     (auto simp: proxy_miss proxy_hit sign_def split: sum.splits)

lemma at_cached_hit:
  "live E w h KAccessToken = Some (ATV v) \<Longrightarrow> at_value E (Cached s h) secret w = (Inr v, w)"
  by (simp add: proxy_hit)

lemma rh_cached_cases:
  "rh_value E (Cached (Direct r) h) tok w =
     (case Option.bind (live E w h KRequestHeaders) as_headers of
        Some hv \<Rightarrow> (Inr hv, w)
      | None \<Rightarrow>
          (Inr \<lparr>rhv_org_id = rh_org_id r, rhv_authorization = ''Bearer '' @ atv_token tok\<rparr>,
           persist h KRequestHeaders
             \<lparr>ce_value = RHV \<lparr>rhv_org_id = rh_org_id r,
                               rhv_authorization = ''Bearer '' @ atv_token tok\<rparr>,
              ce_expires_at = atv_expires_at tok\<rparr> (emit Built w)))"
  by (cases "Option.bind (live E w h KRequestHeaders) as_headers")
     (auto simp: proxy_miss proxy_hit build_def)

lemma add_caching_set_up:
  "add_caching (set_up_authentication t c) h
     = (Cached (Direct \<lparr>cs_timestamp = t, cs_expiration_time = expiration_time c,
                        cs_headers = \<lparr>h_key_id = key_id c, h_algorithm = algorithm c\<rparr>,
                        cs_payload = \<lparr>p_client_id = client_id c, p_team_id = team_id c,
                                      p_audience = audience c\<rparr>\<rparr>) h,
        Cached (Direct \<lparr>at_client_id = client_id c, at_url = url c\<rparr>) h,
        Cached (Direct \<lparr>rh_org_id = org_id c\<rparr>) h)"
  by (simp add: add_caching_def set_up_authentication_def)

text \<open>A stage writes the cache entry of its own kind only.\<close>

lemma proxy_keeps_other_keys:
  assumes "\<And>r w1. compute w = (r, w1) \<Longrightarrow> map_of (shelf_store w1 h') k' = map_of (shelf_store w h') k'"
    and "k' \<noteq> k" and "proxy E h k dec enc ex compute w = (r, w1)"
  shows "map_of (shelf_store w1 h') k' = map_of (shelf_store w h') k'"
proof (cases "Option.bind (live E w h k) dec")
  case (Some v)
  with assms(3) show ?thesis by (simp add: proxy_hit)
next
  case None
  obtain r' w' where c: "compute w = (r', w')" by (cases "compute w")
  from assms(1) [OF c] have ih: "map_of (shelf_store w' h') k' = map_of (shelf_store w h') k'" .
  from assms(2,3) None c ih show ?thesis
    by (auto simp: proxy_miss shelf_store_persist update_conv' split: sum.splits)
qed

lemma cs_value_keeps_other_keys:
  "cs_value E s pk w = (r, w1) \<Longrightarrow> k \<noteq> KClientSecret
   \<Longrightarrow> map_of (shelf_store w1 h') k = map_of (shelf_store w h') k"
proof (induction s arbitrary: r w1)
  case (Direct c)
  then have "w1 = emit Signed w" using snd_sign [of E c pk w] by simp
  then show ?case by simp
next
  case (Cached s h)
  show ?case
    by (rule proxy_keeps_other_keys [where k = KClientSecret and compute = "cs_value E s pk"
          and h = h and E = E])
       (use Cached in \<open>simp_all\<close>)
qed

lemma at_value_keeps_other_keys:
  "at_value E s secret w = (r, w1) \<Longrightarrow> k \<noteq> KAccessToken
   \<Longrightarrow> map_of (shelf_store w1 h') k = map_of (shelf_store w h') k"
proof (induction s arbitrary: r w1)
  case (Direct a)
  then have "w1 = emit Exchanged w" using snd_exchange [of E a secret w] by simp
  then show ?case by simp
next
  case (Cached s h)
  show ?case
    by (rule proxy_keeps_other_keys [where k = KAccessToken and compute = "at_value E s secret"
          and h = h and E = E])
       (use Cached in \<open>simp_all\<close>)
qed

lemma cs_value_keeps_live:
  "cs_value E s pk w = (r, w1) \<Longrightarrow> k \<noteq> KClientSecret \<Longrightarrow> live E w1 h' k = live E w h' k"
  by (simp add: live_def cs_value_keeps_other_keys)

lemma at_value_keeps_live:
  "at_value E s secret w = (r, w1) \<Longrightarrow> k \<noteq> KAccessToken \<Longrightarrow> live E w1 h' k = live E w h' k"
  by (simp add: live_def at_value_keeps_other_keys)

lemma exchange_failed:
  "post E (at_url a) (at_client_id a) (ss_token secret) = (status, body)
   \<Longrightarrow> failed_response E status body
   \<Longrightarrow> exchange E a secret w = (Inl (AuthExchangeError status body), emit Exchanged w)"
  by (auto simp: exchange_def failed_response_def split: option.splits)

subsection \<open>The signed secret\<close>

text \<open>
  C7. The secret signed by the ClientSecret stage that \<open>set_up_authentication\<close> builds
  for timestamp \<open>t\<close> and a configuration with expiration \<open>d\<close> has \<open>issued_at = t\<close> and
  \<open>expires_at = t + d\<close>. A cached secret stored with its own expiry is regenerated at
  every evaluation instant at or after that expiry: the caching stage then does what
  the signer does (which is logged as \<open>Signed\<close>) and persists the new secret. Before
  the expiry the cached secret is returned and nothing else happens.
\<close>

theorem signed_secret_window:
  "(\<forall>s w'. cs_value E (fst (set_up_authentication t c)) pk w = (Inr s, w') \<longrightarrow>
        ss_issued_at s = t \<and> ss_expires_at s = t + expiration_time c)
   \<and> (\<forall>s. map_of (shelf_store w h) KClientSecret
              = Some \<lparr>ce_value = CSV s, ce_expires_at = ss_expires_at s\<rparr>
            \<and> ss_expires_at s \<le> now E \<longrightarrow>
        cs_value E (fst (add_caching (set_up_authentication t c) h)) pk w
          = (case cs_value E (fst (set_up_authentication t c)) pk w of
               (Inl e, w') \<Rightarrow> (Inl e, w')
             | (Inr v, w') \<Rightarrow>
                 (Inr v, persist h KClientSecret
                           \<lparr>ce_value = CSV v, ce_expires_at = ss_expires_at v\<rparr> w'))
        \<and> snd (cs_value E (fst (set_up_authentication t c)) pk w) = emit Signed w)
   \<and> (\<forall>s. map_of (shelf_store w h) KClientSecret
              = Some \<lparr>ce_value = CSV s, ce_expires_at = ss_expires_at s\<rparr>
            \<and> now E < ss_expires_at s \<longrightarrow>
        cs_value E (fst (add_caching (set_up_authentication t c) h)) pk w = (Inr s, w))"
proof (intro conjI allI impI)
  fix s w'
  assume "cs_value E (fst (set_up_authentication t c)) pk w = (Inr s, w')"
  then show "ss_issued_at s = t" "ss_expires_at s = t + expiration_time c"
    by (auto simp: set_up_authentication_def sign_def split: sum.splits)
next
  fix s
  assume "map_of (shelf_store w h) KClientSecret
              = Some \<lparr>ce_value = CSV s, ce_expires_at = ss_expires_at s\<rparr>
            \<and> ss_expires_at s \<le> now E"
  then have "live E w h KClientSecret = None"
    using live_expired [of w h KClientSecret _ E] by simp
  then show "cs_value E (fst (add_caching (set_up_authentication t c) h)) pk w
          = (case cs_value E (fst (set_up_authentication t c)) pk w of
               (Inl e, w') \<Rightarrow> (Inl e, w')
             | (Inr v, w') \<Rightarrow>
                 (Inr v, persist h KClientSecret
                           \<lparr>ce_value = CSV v, ce_expires_at = ss_expires_at v\<rparr> w'))"
    by (simp add: set_up_authentication_def add_caching_def proxy_miss)
  show "snd (cs_value E (fst (set_up_authentication t c)) pk w) = emit Signed w"
    by (simp add: set_up_authentication_def)
next
  fix s
  assume "map_of (shelf_store w h) KClientSecret
              = Some \<lparr>ce_value = CSV s, ce_expires_at = ss_expires_at s\<rparr>
            \<and> now E < ss_expires_at s"
  then have "live E w h KClientSecret = Some (CSV s)"
    using live_fresh [of w h KClientSecret _ E] by simp
  then show "cs_value E (fst (add_caching (set_up_authentication t c) h)) pk w = (Inr s, w)"
    by (simp add: set_up_authentication_def add_caching_def proxy_hit)
qed

theorem signed_secret_window_witness:
  "cs_value env7 (fst (set_up_authentication 1200 (auth0 True))) ''inline-key'' world7
     = (Inr \<lparr>ss_token = ''s1'', ss_issued_at = 1200, ss_expires_at = 2400\<rparr>, emit Signed world7)
   \<and> map_of (shelf_store world7 ''/tmp/auth'') KClientSecret
       = Some \<lparr>ce_value = CSV \<lparr>ss_token = ''s0'', ss_issued_at = 0, ss_expires_at = 1200\<rparr>,
               ce_expires_at = 1200\<rparr>
   \<and> (1200::int) \<le> now env7
   \<and> cs_value env7 (fst (add_caching (set_up_authentication 1200 (auth0 True)) ''/tmp/auth''))
         ''inline-key'' world7
       = (Inr \<lparr>ss_token = ''s1'', ss_issued_at = 1200, ss_expires_at = 2400\<rparr>,
          persist ''/tmp/auth'' KClientSecret
            \<lparr>ce_value = CSV \<lparr>ss_token = ''s1'', ss_issued_at = 1200, ss_expires_at = 2400\<rparr>,
             ce_expires_at = 2400\<rparr> (emit Signed world7))
   \<and> now env0 < (1200::int)
   \<and> cs_value env0 (fst (add_caching (set_up_authentication 1199 (auth0 True)) ''/tmp/auth''))
         ''inline-key'' world7
       = (Inr \<lparr>ss_token = ''s0'', ss_issued_at = 0, ss_expires_at = 1200\<rparr>, world7)"
proof -
  have d: "cs_value env7 (fst (set_up_authentication 1200 (auth0 True))) ''inline-key'' world7
     = (Inr \<lparr>ss_token = ''s1'', ss_issued_at = 1200, ss_expires_at = 2400\<rparr>, emit Signed world7)"
    by (simp add: set_up_authentication_def sign_def env7_def env0_def auth0_def)
  have m: "map_of (shelf_store world7 ''/tmp/auth'') KClientSecret
       = Some \<lparr>ce_value = CSV \<lparr>ss_token = ''s0'', ss_issued_at = 0, ss_expires_at = 1200\<rparr>,
               ce_expires_at = 1200\<rparr>"
    by (simp add: shelf_store_def world7_def)
  have n7: "now env7 = 1200" by (simp add: env7_def)
  have n0: "now env0 = 0" by (simp add: env0_def)
  from signed_secret_window [of env7 1200 "auth0 True" "''inline-key''" world7 "''/tmp/auth''"]
    signed_secret_window [of env0 1199 "auth0 True" "''inline-key''" world7 "''/tmp/auth''"]
    d m n7 n0
  show ?thesis by simp
qed

subsection \<open>A cached access token\<close>

text \<open>
  C1, as amended. When the shelf holds a live AccessToken entry, evaluating the caching
  pipeline never invokes the exchanger. The signer is invoked once unless the shelf
  also holds a live ClientSecret entry, because \<open>cs.value(private_key)\<close> is evaluated
  before \<open>at.value\<close> is called. If the ClientSecret stage raises, so does the pipeline;
  otherwise the result is the live cached headers when there are some, and else the
  headers built from the cached token.
\<close>

theorem cached_access_token_skips_exchange:
  assumes at_live: "live E w h KAccessToken = Some (ATV v)"
  shows "invocations Exchanged
           (snd (request_headers_value E (add_caching (set_up_authentication t c) h) pk w))
         = invocations Exchanged w
       \<and> invocations Signed
           (snd (request_headers_value E (add_caching (set_up_authentication t c) h) pk w))
         = invocations Signed w
             + (if Option.bind (live E w h KClientSecret) as_secret = None then 1 else 0)
       \<and> fst (request_headers_value E (add_caching (set_up_authentication t c) h) pk w)
         = (case fst (cs_value E (fst (add_caching (set_up_authentication t c) h)) pk w) of
              Inl e \<Rightarrow> Inl e
            | Inr secret \<Rightarrow>
                Inr (case Option.bind (live E w h KRequestHeaders) as_headers of
                       Some hv \<Rightarrow> hv
                     | None \<Rightarrow> \<lparr>rhv_org_id = org_id c,
                                 rhv_authorization = ''Bearer '' @ atv_token v\<rparr>))"
proof -
  let ?c = "\<lparr>cs_timestamp = t, cs_expiration_time = expiration_time c,
             cs_headers = \<lparr>h_key_id = key_id c, h_algorithm = algorithm c\<rparr>,
             cs_payload = \<lparr>p_client_id = client_id c, p_team_id = team_id c,
                           p_audience = audience c\<rparr>\<rparr>"
  note objs = add_caching_set_up [of t c h]
  from cs_cached_cases [of E w h ?c pk] show ?thesis
  proof (elim disjE exE conjE)
    fix s
    assume "Option.bind (live E w h KClientSecret) as_secret = Some s"
      and "cs_value E (Cached (Direct ?c) h) pk w = (Inr s, w)"
    then show ?thesis
      using at_live
      by (simp add: objs request_headers_value_def at_cached_hit rh_cached_cases
            del: cs_value.simps at_value.simps rh_value.simps split: option.splits)
  next
    fix e
    assume "Option.bind (live E w h KClientSecret) as_secret = None"
      and "cs_value E (Cached (Direct ?c) h) pk w = (Inl e, emit Signed w)"
    then show ?thesis
      by (simp add: objs request_headers_value_def
            del: cs_value.simps at_value.simps rh_value.simps)
  next
    fix s x
    assume miss: "Option.bind (live E w h KClientSecret) as_secret = None"
      and r: "cs_value E (Cached (Direct ?c) h) pk w
                = (Inr s, persist h KClientSecret x (emit Signed w))"
    have "live E (persist h KClientSecret x (emit Signed w)) h KAccessToken = Some (ATV v)"
      using at_live by (simp add: live_persist_other)
    then show ?thesis
      using miss r
      by (simp add: objs request_headers_value_def at_cached_hit rh_cached_cases
            live_persist_other
            del: cs_value.simps at_value.simps rh_value.simps split: option.splits)
  qed
qed

theorem cached_access_token_skips_exchange_witness:
  "live env0 world_at ''/tmp/auth'' KAccessToken
     = Some (ATV \<lparr>atv_token = ''abc'', atv_expires_at = 3600\<rparr>)
   \<and> invocations Exchanged
        (snd (request_headers_value env0
                (add_caching (set_up_authentication 0 (auth0 True)) ''/tmp/auth'')
                ''inline-key'' world_at)) = 0
   \<and> invocations Signed
        (snd (request_headers_value env0
                (add_caching (set_up_authentication 0 (auth0 True)) ''/tmp/auth'')
                ''inline-key'' world_at)) = 1
   \<and> fst (request_headers_value env0
             (add_caching (set_up_authentication 0 (auth0 True)) ''/tmp/auth'')
             ''inline-key'' world_at)
       = Inr \<lparr>rhv_org_id = ''org1'', rhv_authorization = ''Bearer abc''\<rparr>"
proof -
  have l: "live env0 world_at ''/tmp/auth'' KAccessToken
     = Some (ATV \<lparr>atv_token = ''abc'', atv_expires_at = 3600\<rparr>)"
    by (simp add: live_def shelf_store_def world_at_def env0_def)
  have l1: "live env0 world_at ''/tmp/auth'' KClientSecret = None"
    by (simp add: live_def shelf_store_def world_at_def)
  have l2: "live env0 world_at ''/tmp/auth'' KRequestHeaders = None"
    by (simp add: live_def shelf_store_def world_at_def)
  have i: "invocations Exchanged world_at = 0" "invocations Signed world_at = 0"
    by (simp_all add: invocations_def world_at_def)
  have s: "fst (cs_value env0
                  (fst (add_caching (set_up_authentication 0 (auth0 True)) ''/tmp/auth''))
                  ''inline-key'' world_at)
             = Inr \<lparr>ss_token = ''s0'', ss_issued_at = 0, ss_expires_at = 1200\<rparr>"
    by (simp add: add_caching_set_up proxy_def live_def shelf_store_def world_at_def sign_def
        env0_def auth0_def)
  have o: "org_id (auth0 True) = ''org1''" by (simp add: auth0_def)
  from cached_access_token_skips_exchange [OF l, of 0 "auth0 True" "''inline-key''"] l l1 l2 i s o
  show ?thesis by simp
qed

text \<open>
  C1 as stated fails: with a live AccessToken entry and no ClientSecret entry on the
  shelf, the run signs a new secret (and stores it) before it reaches the cached token.
\<close>

theorem signer_runs_despite_cached_token:
  "live env0 world_at ''/tmp/auth'' KAccessToken
     = Some (ATV \<lparr>atv_token = ''abc'', atv_expires_at = 3600\<rparr>)
   \<and> fst (do_sync_headers env0 0 config0 world_at)
       = Inr (auth0 True, \<lparr>rhv_org_id = ''org1'', rhv_authorization = ''Bearer abc''\<rparr>)
   \<and> events (snd (do_sync_headers env0 0 config0 world_at))
       = [ClockRead 0, ShelveOpen ''/tmp/auth'', Signed, CacheWrite KClientSecret, Built,
          CacheWrite KRequestHeaders,
          Evaluated \<lparr>rhv_org_id = ''org1'', rhv_authorization = ''Bearer abc''\<rparr>]"
  by (simp add: run_defs cache_defs path_defs env0_def config0_def world_at_def auth0_def)

subsection \<open>A failed token exchange\<close>

text \<open>
  C8, as amended. Whenever the ClientSecret stage has returned a secret, the shelf holds
  no live AccessToken entry, and the endpoint's response to that secret is not a
  success (no status, a status outside 200..299, or a body that does not parse), the
  pipeline raises \<open>AuthExchangeError\<close> carrying that status and body, with caching and
  without. After the ClientSecret stage the failed run only logs the exchange, and the
  AccessToken and RequestHeaders entries of every shelf are what they were before the
  run. (The ClientSecret entry is not covered: that stage has already run.)
\<close>

theorem failed_exchange_raises:
  assumes cs: "cs_value E cs pk w = (Inr secret, w1)"
    and miss: "Option.bind (live E w h KAccessToken) as_token = None"
    and resp: "post E (at_url a) (at_client_id a) (ss_token secret) = (status, body)"
    and failed: "failed_response E status body"
  shows "request_headers_value E (cs, Cached (Direct a) h, rh) pk w
           = (Inl (AuthExchangeError status body), emit Exchanged w1)
       \<and> request_headers_value E (cs, Direct a, rh) pk w
           = (Inl (AuthExchangeError status body), emit Exchanged w1)
       \<and> map_of (shelf_store (emit Exchanged w1) h') KAccessToken
           = map_of (shelf_store w h') KAccessToken
       \<and> map_of (shelf_store (emit Exchanged w1) h') KRequestHeaders
           = map_of (shelf_store w h') KRequestHeaders"
proof -
  have "live E w1 h KAccessToken = live E w h KAccessToken"
    using cs by (rule cs_value_keeps_live) simp
  with miss have m1: "Option.bind (live E w1 h KAccessToken) as_token = None" by simp
  show ?thesis
    using cs cs_value_keeps_other_keys [OF cs, of KAccessToken h']
      cs_value_keeps_other_keys [OF cs, of KRequestHeaders h']
    by (simp add: request_headers_value_def proxy_miss [OF m1] exchange_failed [OF resp failed])
qed

theorem failed_exchange_raises_witness:
  "cs_value env401 (fst (add_caching (set_up_authentication 0 (auth0 True)) ''/tmp/auth''))
       ''inline-key'' world1
     = (Inr \<lparr>ss_token = ''s0'', ss_issued_at = 0, ss_expires_at = 1200\<rparr>,
        persist ''/tmp/auth'' KClientSecret
          \<lparr>ce_value = CSV \<lparr>ss_token = ''s0'', ss_issued_at = 0, ss_expires_at = 1200\<rparr>,
           ce_expires_at = 1200\<rparr> (emit Signed world1))
   \<and> Option.bind (live env401 world1 ''/tmp/auth'' KAccessToken) as_token = None
   \<and> post env401 ''https://token'' ''c1'' ''s0'' = (Some 401, ''denied'')
   \<and> failed_response env401 (Some 401) ''denied''
   \<and> request_headers_value env401
         (add_caching (set_up_authentication 0 (auth0 True)) ''/tmp/auth'')
         ''inline-key'' world1
       = (Inl (AuthExchangeError (Some 401) ''denied''),
          emit Exchanged
            (persist ''/tmp/auth'' KClientSecret
               \<lparr>ce_value = CSV \<lparr>ss_token = ''s0'', ss_issued_at = 0, ss_expires_at = 1200\<rparr>,
                ce_expires_at = 1200\<rparr> (emit Signed world1)))"
proof -
  let ?h = "''/tmp/auth''"
  let ?s = "\<lparr>ss_token = ''s0'', ss_issued_at = 0, ss_expires_at = 1200\<rparr>"
  let ?a = "\<lparr>at_client_id = ''c1'', at_url = ''https://token''\<rparr>"
  have objs: "add_caching (set_up_authentication 0 (auth0 True)) ?h
     = (Cached (Direct \<lparr>cs_timestamp = 0, cs_expiration_time = 1200,
                        cs_headers = \<lparr>h_key_id = ''k1'', h_algorithm = ''ES256''\<rparr>,
                        cs_payload = \<lparr>p_client_id = ''c1'', p_team_id = ''t1'',
                                      p_audience = ''a1''\<rparr>\<rparr>) ?h,
        Cached (Direct ?a) ?h, Cached (Direct \<lparr>rh_org_id = ''org1''\<rparr>) ?h)"
    by (simp add: add_caching_set_up auth0_def)
  have cs: "cs_value env401 (fst (add_caching (set_up_authentication 0 (auth0 True)) ?h))
       ''inline-key'' world1
     = (Inr ?s, persist ?h KClientSecret \<lparr>ce_value = CSV ?s, ce_expires_at = 1200\<rparr>
                  (emit Signed world1))"
    by (simp add: objs proxy_def live_def shelf_store_def world1_def sign_def env401_def env0_def)
  have miss: "Option.bind (live env401 world1 ?h KAccessToken) as_token = None"
    by (simp add: live_def shelf_store_def world1_def)
  have resp: "post env401 (at_url ?a) (at_client_id ?a) (ss_token ?s) = (Some 401, ''denied'')"
    by (simp add: env401_def)
  have failed: "failed_response env401 (Some 401) ''denied''"
    by (simp add: failed_response_def)
  from failed_exchange_raises [OF cs [unfolded objs fst_conv] miss resp failed] cs miss resp failed
  show ?thesis by (simp add: objs)
qed

text \<open>
  C8 as stated fails: on an empty cache, with an endpoint that answers 401, the run
  raises \<open>AuthExchangeError\<close> and leaves a new ClientSecret entry on the shelf.
\<close>

theorem failed_exchange_leaves_secret_cached:
  "do_sync_headers env401 0 config0 world0
     = (Inl (AuthExchangeError (Some 401) ''denied''), world401)
   \<and> shelf_store world0 ''/tmp/auth'' = []
   \<and> shelf_store world401 ''/tmp/auth''
       = [(KClientSecret,
           \<lparr>ce_value = CSV \<lparr>ss_token = ''s0'', ss_issued_at = 0, ss_expires_at = 1200\<rparr>,
            ce_expires_at = 1200\<rparr>)]"
  by (simp add: run_defs cache_defs path_defs env0_def config0_def world0_def auth0_def
      env401_def world401_def)

subsection \<open>What each part of a run adds to the log\<close>

lemma extends_refl [simp]: "extends P w w"
  by (simp add: extends_def)

lemma extends_trans: "extends P w w' \<Longrightarrow> extends P w' w'' \<Longrightarrow> extends P w w''"
  by (auto simp: extends_def)

lemma extends_emit: "P e \<Longrightarrow> extends P w (emit e w)"
  by (simp add: extends_def)

lemma extends_persist: "P (CacheWrite k) \<Longrightarrow> extends P w (persist h k x w)"
  by (simp add: extends_def)

lemma extends_invocations:
  "extends P w w' \<Longrightarrow> \<not> P e \<Longrightarrow> invocations e w' = invocations e w"
  by (auto simp: extends_def invocations_def list_all_iff count_list_0_iff)

lemma proxy_extends:
  assumes "\<And>w. extends P w (snd (compute w))" and "P (CacheWrite k)"
  shows "extends P w (snd (proxy E h k dec enc ex compute w))"
proof (cases "Option.bind (live E w h k) dec")
  case (Some v)
  then show ?thesis by (simp add: proxy_hit)
next
  case None
  obtain r w' where c: "compute w = (r, w')" by (cases "compute w")
  with assms(1) [of w] have e: "extends P w w'" by simp
  have "extends P w' (persist h k x w')" for x
    using assms(2) by (rule extends_persist)
  with e have "extends P w (persist h k x w')" for x
    by (rule extends_trans)
  with e c None show ?thesis
    by (simp add: proxy_miss split: sum.splits)
qed

lemma proxy_invocations:
  assumes "invocations e (snd (compute w)) \<le> invocations e w + n" and "e \<noteq> CacheWrite k"
  shows "invocations e (snd (proxy E h k dec enc ex compute w)) \<le> invocations e w + n"
proof (cases "Option.bind (live E w h k) dec")
  case (Some v)
  then show ?thesis by (simp add: proxy_hit)
next
  case None
  obtain r w' where c: "compute w = (r, w')" by (cases "compute w")
  with assms c None show ?thesis
    by (auto simp: proxy_miss split: sum.splits)
qed

lemma proxy_fst:
  "fst (proxy E h k dec enc ex compute w)
     = (case Option.bind (live E w h k) dec of Some v \<Rightarrow> Inr v | None \<Rightarrow> fst (compute w))"
  by (cases "compute w") (simp add: proxy_def split: option.splits sum.splits)

lemma cs_value_extends: "extends stage_event w (snd (cs_value E s pk w))"
proof (induction s arbitrary: w)
  case (Direct c)
  show ?case by (simp add: extends_emit)
next
  case (Cached s h)
  show ?case by (simp add: proxy_extends Cached.IH)
qed

lemma at_value_extends: "extends stage_event w (snd (at_value E s secret w))"
proof (induction s arbitrary: w)
  case (Direct a)
  show ?case by (simp add: extends_emit)
next
  case (Cached s h)
  show ?case by (simp add: proxy_extends Cached.IH)
qed

lemma rh_value_extends: "extends stage_event w (snd (rh_value E s tok w))"
proof (induction s arbitrary: w)
  case (Direct r)
  show ?case by (simp add: extends_emit)
next
  case (Cached s h)
  show ?case by (simp add: proxy_extends Cached.IH)
qed

text \<open>Each stage is invoked at most once by its \<^verbatim>\<open>value\<close>, and invokes no other stage.\<close>

lemma cs_value_invocations:
  "e \<in> {Signed, Exchanged, Built} \<Longrightarrow>
   invocations e (snd (cs_value E s pk w)) \<le> invocations e w + (if e = Signed then 1 else 0)"
proof (induction s arbitrary: w)
  case (Direct c)
  then show ?case by auto
next
  case (Cached s h)
  show ?case
    unfolding cs_value.simps
    by (rule proxy_invocations) (use Cached in auto)
qed

lemma at_value_invocations:
  "e \<in> {Signed, Exchanged, Built} \<Longrightarrow>
   invocations e (snd (at_value E s secret w)) \<le> invocations e w + (if e = Exchanged then 1 else 0)"
proof (induction s arbitrary: w)
  case (Direct a)
  then show ?case by auto
next
  case (Cached s h)
  show ?case
    unfolding at_value.simps
    by (rule proxy_invocations) (use Cached in auto)
qed

lemma rh_value_invocations:
  "e \<in> {Signed, Exchanged, Built} \<Longrightarrow>
   invocations e (snd (rh_value E s tok w)) \<le> invocations e w + (if e = Built then 1 else 0)"
proof (induction s arbitrary: w)
  case (Direct r)
  then show ?case by auto
next
  case (Cached s h)
  show ?case
    unfolding rh_value.simps
    by (rule proxy_invocations) (use Cached in auto)
qed

lemma request_headers_value_step:
  assumes "request_headers_value E objs pk w = (r, w')" and "e \<in> {Signed, Exchanged, Built}"
  shows "extends stage_event w w' \<and> invocations e w' \<le> invocations e w + 1"
proof -
  obtain cs at rh where o: "objs = (cs, at, rh)" by (cases objs)
  obtain r1 w1 where c: "cs_value E cs pk w = (r1, w1)" by (cases "cs_value E cs pk w")
  have e1: "extends stage_event w w1" using cs_value_extends [of w E cs pk] c by simp
  have i1: "invocations e w1 \<le> invocations e w + (if e = Signed then 1 else 0)"
    using cs_value_invocations [OF assms(2), of E cs pk w] c by simp
  show ?thesis
  proof (cases r1)
    case (Inl x)
    with assms(1) o c e1 i1 show ?thesis
      by (auto simp: request_headers_value_def split: if_splits)
  next
    case (Inr secret)
    obtain r2 w2 where a: "at_value E at secret w1 = (r2, w2)"
      by (cases "at_value E at secret w1")
    have e2: "extends stage_event w w2"
      using at_value_extends [of w1 E at secret] a e1 by (auto intro: extends_trans)
    have i2: "invocations e w2
                \<le> invocations e w + (if e = Signed \<or> e = Exchanged then 1 else 0)"
      using at_value_invocations [OF assms(2), of E at secret w1] a i1
      by (auto split: if_splits)
    show ?thesis
    proof (cases r2)
      case (Inl x)
      with assms(1) o Inr c a e2 i2 show ?thesis
        by (auto simp: request_headers_value_def split: if_splits)
    next
      case tok: (Inr tok)
      have w': "w' = snd (rh_value E rh tok w2)"
        using assms(1) o Inr tok c a by (simp add: request_headers_value_def)
      have e3: "extends stage_event w w'"
        unfolding w' using e2 rh_value_extends [of w2 E rh tok] by (rule extends_trans)
      have i3: "invocations e w' \<le> invocations e w + 1"
        unfolding w' using rh_value_invocations [OF assms(2), of E rh tok w2] i2
        by (auto split: if_splits)
      from e3 i3 show ?thesis by simp
    qed
  qed
qed

lemma get_or_create_cache_step:
  assumes "get_or_create_cache d f w = (r, w1)" and "e \<in> {Signed, Exchanged, Built}"
  shows "extends stage_event w w1 \<and> invocations e w1 = invocations e w"
  using assms
  by (auto simp: get_or_create_cache_def shelve_open_def extends_def emit_def invocations_def
        Let_def split: if_splits)

lemma load_private_key_step:
  assumes "load_private_key E config w = (r, w1)" and "e \<in> {Signed, Exchanged, Built}"
  shows "extends stage_event w w1 \<and> invocations e w1 = invocations e w"
  using assms
  by (auto simp: load_private_key_def extends_def emit_def invocations_def split: option.splits)

lemma do_sync_stages_step:
  assumes "do_sync_stages t c w = (r, w1)" and "e \<in> {Signed, Exchanged, Built}"
  shows "extends stage_event w w1 \<and> invocations e w1 = invocations e w"
proof (cases "local_caching c")
  case False
  with assms show ?thesis by (simp add: do_sync_stages_def)
next
  case True
  obtain rg wg where g: "get_or_create_cache (tmp_dir c) (auth_cache_file c) w = (rg, wg)"
    by (cases "get_or_create_cache (tmp_dir c) (auth_cache_file c) w")
  with True assms(1) have "w1 = wg" by (auto simp: do_sync_stages_def split: sum.splits)
  with get_or_create_cache_step [OF g assms(2)] show ?thesis by simp
qed

text \<open>
  The authentication part of a run: the clock is read, then come stage events only, and
  when the headers are there, the event that logs them.
\<close>

lemma do_sync_headers_log:
  assumes "do_sync_headers E t config w = (r, w3)" and "e \<in> {Signed, Exchanged, Built}"
  shows "\<exists>w'. extends stage_event (emit (ClockRead t) w) w'
           \<and> invocations e w' \<le> invocations e w + 1
           \<and> (case r of Inl x \<Rightarrow> w3 = w' | Inr (c, v) \<Rightarrow> w3 = emit (Evaluated v) w')"
proof (cases "from_mapping E config")
  case (Inl x)
  with assms show ?thesis
    by (intro exI [of _ "emit (ClockRead t) w"]) (auto simp: do_sync_headers_def)
next
  case (Inr c)
  let ?w0 = "emit (ClockRead t) w"
  have i0: "invocations e ?w0 = invocations e w" using assms(2) by auto
  obtain ro w1 where op: "do_sync_stages t c ?w0 = (ro, w1)"
    by (cases "do_sync_stages t c ?w0")
  from do_sync_stages_step [OF op assms(2)] i0
  have s1: "extends stage_event ?w0 w1 \<and> invocations e w1 = invocations e w" by simp
  show ?thesis
  proof (cases ro)
    case (Inl x)
    with assms(1) Inr op s1 show ?thesis
      by (intro exI [of _ w1]) (auto simp: do_sync_headers_def)
  next
    case objs: (Inr objs)
    obtain rk w2 where k: "load_private_key E config w1 = (rk, w2)"
      by (cases "load_private_key E config w1")
    from load_private_key_step [OF k assms(2)] s1
    have s2: "extends stage_event ?w0 w2 \<and> invocations e w2 = invocations e w"
      by (auto intro: extends_trans)
    show ?thesis
    proof (cases rk)
      case (Inl x)
      with assms(1) Inr op objs k s2 show ?thesis
        by (intro exI [of _ w2]) (auto simp: do_sync_headers_def)
    next
      case pk: (Inr pk)
      obtain rv wv where v: "request_headers_value E objs pk w2 = (rv, wv)"
        by (cases "request_headers_value E objs pk w2")
      from request_headers_value_step [OF v assms(2)] s2
      have s3: "extends stage_event ?w0 wv \<and> invocations e wv \<le> invocations e w + 1"
        by (auto intro: extends_trans)
      from assms(1) Inr op objs k pk v s3 show ?thesis
        by (intro exI [of _ wv]) (auto simp: do_sync_headers_def split: sum.splits)
    qed
  qed
qed

subsection \<open>The timestamp\<close>

lemma stage_event_not_clock_read: "stage_event e \<Longrightarrow> \<not> is_clock_read e"
  by (cases e) simp_all

text \<open>
  C6, as amended. A run reads the clock once, first of all and before the stages are
  constructed; no later event of the authentication part is a reading of the clock by
  the entry module. The stage objects the run evaluates are those of
  \<open>do_sync_stages\<close> for that timestamp. Of these, the ClientSecret stage, wrapped for
  caching or not, holds the timestamp; the AccessToken and RequestHeaders stages and
  their caching wrappers are the same whatever the timestamp.
\<close>

theorem timestamp_reaches_client_secret_only:
  "(\<exists>evs. events (snd (do_sync_headers E t config w)) = events w @ ClockRead t # evs
          \<and> list_all (\<lambda>e. \<not> is_clock_read e) evs)
   \<and> (\<forall>c objs w1 pk w2.
        from_mapping E config = Inr c
        \<and> do_sync_stages t c (emit (ClockRead t) w) = (Inr objs, w1)
        \<and> load_private_key E config w1 = (Inr pk, w2) \<longrightarrow>
        fst (do_sync_headers E t config w)
          = map_sum id (Pair c) (fst (request_headers_value E objs pk w2)))
   \<and> (\<forall>c objs w1. do_sync_stages t c w = (Inr objs, w1) \<longrightarrow>
        cs_timestamp (inner (fst objs)) = t)
   \<and> (\<forall>c objs w1 objs' w1'.
        do_sync_stages t c w = (Inr objs, w1) \<and> do_sync_stages t' c w = (Inr objs', w1') \<longrightarrow>
        snd objs = snd objs')"
proof (intro conjI allI impI)
  obtain r w3 where h: "do_sync_headers E t config w = (r, w3)"
    by (cases "do_sync_headers E t config w")
  from do_sync_headers_log [OF h, of Signed]
  obtain w' where e: "extends stage_event (emit (ClockRead t) w) w'"
    and r: "case r of Inl x \<Rightarrow> w3 = w' | Inr (c, v) \<Rightarrow> w3 = emit (Evaluated v) w'"
    by auto
  from e obtain evs where evs: "events w' = events w @ ClockRead t # evs"
    and st: "list_all stage_event evs"
    by (auto simp: extends_def)
  have nc: "list_all (\<lambda>e. \<not> is_clock_read e) evs"
    using st by (auto simp: list_all_iff dest: stage_event_not_clock_read)
  show "\<exists>evs. events (snd (do_sync_headers E t config w)) = events w @ ClockRead t # evs
          \<and> list_all (\<lambda>e. \<not> is_clock_read e) evs"
  proof (cases r)
    case (Inl x)
    with h r evs nc show ?thesis by auto
  next
    case (Inr cv)
    obtain c v where "cv = (c, v)" by (cases cv)
    with Inr h r evs nc show ?thesis
      by (intro exI [of _ "evs @ [Evaluated v]"]) simp
  qed
next
  fix c objs w1 pk w2
  assume "from_mapping E config = Inr c
        \<and> do_sync_stages t c (emit (ClockRead t) w) = (Inr objs, w1)
        \<and> load_private_key E config w1 = (Inr pk, w2)"
  then show "fst (do_sync_headers E t config w)
          = map_sum id (Pair c) (fst (request_headers_value E objs pk w2))"
    by (cases "request_headers_value E objs pk w2")
       (auto simp: do_sync_headers_def split: sum.splits)
next
  fix c objs w1
  assume "do_sync_stages t c w = (Inr objs, w1)"
  then show "cs_timestamp (inner (fst objs)) = t"
    by (auto simp: do_sync_stages_def add_caching_def set_up_authentication_def
          split: if_splits prod.splits sum.splits)
next
  fix c objs w1 objs' w1'
  assume "do_sync_stages t c w = (Inr objs, w1) \<and> do_sync_stages t' c w = (Inr objs', w1')"
  then show "snd objs = snd objs'"
    by (auto simp: do_sync_stages_def add_caching_def set_up_authentication_def
          split: if_splits prod.splits sum.splits)
qed

theorem timestamp_reaches_client_secret_only_witness:
  "from_mapping env0 config0 = Inr (auth0 True)
   \<and> do_sync_stages 0 (auth0 True) (emit (ClockRead 0) world0)
       = (Inr (add_caching (set_up_authentication 0 (auth0 True)) ''/tmp/auth''),
          world1\<lparr>events := [ClockRead 0, ShelveOpen ''/tmp/auth'']\<rparr>)
   \<and> load_private_key env0 config0 (world1\<lparr>events := [ClockRead 0, ShelveOpen ''/tmp/auth'']\<rparr>)
       = (Inr ''inline-key'', world1\<lparr>events := [ClockRead 0, ShelveOpen ''/tmp/auth'']\<rparr>)
   \<and> fst (do_sync_headers env0 0 config0 world0)
       = map_sum id (Pair (auth0 True))
           (fst (request_headers_value env0
                   (add_caching (set_up_authentication 0 (auth0 True)) ''/tmp/auth'')
                   ''inline-key'' (world1\<lparr>events := [ClockRead 0, ShelveOpen ''/tmp/auth'']\<rparr>)))
   \<and> do_sync_stages 0 (auth0 True) world0
       = (Inr (add_caching (set_up_authentication 0 (auth0 True)) ''/tmp/auth''), world1)
   \<and> do_sync_stages 1 (auth0 True) world0
       = (Inr (add_caching (set_up_authentication 1 (auth0 True)) ''/tmp/auth''), world1)
   \<and> cs_timestamp (inner (fst (add_caching (set_up_authentication 0 (auth0 True)) ''/tmp/auth'')))
       = 0
   \<and> snd (add_caching (set_up_authentication 0 (auth0 True)) ''/tmp/auth'')
       = snd (add_caching (set_up_authentication 1 (auth0 True)) ''/tmp/auth'')
   \<and> (\<exists>evs. events (snd (do_sync_headers env0 0 config0 world0)) = ClockRead 0 # evs
          \<and> list_all (\<lambda>e. \<not> is_clock_read e) evs)"
proof -
  let ?w1 = "world1\<lparr>events := [ClockRead 0, ShelveOpen ''/tmp/auth'']\<rparr>"
  have m: "from_mapping env0 config0 = Inr (auth0 True)"
    by (simp add: env0_def config0_def)
  have s: "do_sync_stages 0 (auth0 True) (emit (ClockRead 0) world0)
       = (Inr (add_caching (set_up_authentication 0 (auth0 True)) ''/tmp/auth''), ?w1)"
    by (simp add: do_sync_stages_def cache_defs path_defs auth0_def world0_def world1_def)
  have k: "load_private_key env0 config0 ?w1 = (Inr ''inline-key'', ?w1)"
    by (simp add: load_private_key_def config0_def)
  have s0: "do_sync_stages 0 (auth0 True) world0
       = (Inr (add_caching (set_up_authentication 0 (auth0 True)) ''/tmp/auth''), world1)"
    and s1: "do_sync_stages 1 (auth0 True) world0
       = (Inr (add_caching (set_up_authentication 1 (auth0 True)) ''/tmp/auth''), world1)"
    by (simp_all add: do_sync_stages_def cache_defs path_defs auth0_def world0_def world1_def)
  have e: "events world0 = []" by (simp add: world0_def)
  note T = timestamp_reaches_client_secret_only
         [where E = env0 and t = 0 and config = config0 and w = world0 and t' = 1]
  from T have "\<exists>evs. events (snd (do_sync_headers env0 0 config0 world0))
                       = events world0 @ ClockRead 0 # evs
                  \<and> list_all (\<lambda>e. \<not> is_clock_read e) evs"
    by (rule conjunct1)
  with e have t1: "\<exists>evs. events (snd (do_sync_headers env0 0 config0 world0)) = ClockRead 0 # evs
                  \<and> list_all (\<lambda>e. \<not> is_clock_read e) evs"
    by simp
  from T m s k have t2: "fst (do_sync_headers env0 0 config0 world0)
       = map_sum id (Pair (auth0 True))
           (fst (request_headers_value env0
                   (add_caching (set_up_authentication 0 (auth0 True)) ''/tmp/auth'')
                   ''inline-key'' ?w1))"
    by blast
  from T s0 have t3: "cs_timestamp
        (inner (fst (add_caching (set_up_authentication 0 (auth0 True)) ''/tmp/auth''))) = 0"
    by blast
  from T s0 s1 have t4: "snd (add_caching (set_up_authentication 0 (auth0 True)) ''/tmp/auth'')
       = snd (add_caching (set_up_authentication 1 (auth0 True)) ''/tmp/auth'')"
    by blast
  from m s k s0 s1 t1 t2 t3 t4 show ?thesis by (intro conjI)
qed

text \<open>
  C6 as stated fails: at two different timestamps the AccessToken and RequestHeaders
  stages constructed are equal, so the timestamp is not passed into them.
\<close>

theorem timestamp_not_passed_to_all_stages:
  "snd (set_up_authentication 0 (auth0 True)) = snd (set_up_authentication 1 (auth0 True))"
  by (simp add: set_up_authentication_def)

subsection \<open>Caching against no caching\<close>

text \<open>
  What the pipeline returns, with the caching wrappers and without: stage by stage, the
  live readable entry when there is one, and what the stage computes otherwise.
\<close>

lemma plain_pipeline_result:
  "fst (request_headers_value E (Direct c, Direct a, Direct r) pk w0)
     = (case fst (sign E c pk w0) of
          Inl e \<Rightarrow> Inl e
        | Inr s \<Rightarrow>
            (case fst (exchange E a s w0) of
               Inl e \<Rightarrow> Inl e
             | Inr tok \<Rightarrow> fst (build r tok w0)))"
proof -
  obtain r1 where s: "sign E c pk w0 = (r1, emit Signed w0)"
    using snd_sign [of E c pk w0] by (cases "sign E c pk w0") simp
  show ?thesis
  proof (cases r1)
    case (Inl e)
    with s show ?thesis by (simp add: request_headers_value_def)
  next
    case (Inr secret)
    obtain r2 where x: "exchange E a secret (emit Signed w0) = (r2, emit Exchanged (emit Signed w0))"
      using snd_exchange [of E a secret "emit Signed w0"]
      by (cases "exchange E a secret (emit Signed w0)") simp
    have x0: "fst (exchange E a secret w0) = r2"
      using fst_exchange [of E a secret w0 "emit Signed w0"] x by simp
    from Inr s x x0 show ?thesis
      by (cases r2) (simp_all add: request_headers_value_def build_def)
  qed
qed

lemma cached_pipeline_result:
  "fst (request_headers_value E (Cached (Direct c) h, Cached (Direct a) h, Cached (Direct r) h)
          pk w)
     = (case (case Option.bind (live E w h KClientSecret) as_secret of
                Some s \<Rightarrow> Inr s | None \<Rightarrow> fst (sign E c pk w0)) of
          Inl e \<Rightarrow> Inl e
        | Inr s \<Rightarrow>
            (case (case Option.bind (live E w h KAccessToken) as_token of
                     Some tok \<Rightarrow> Inr tok | None \<Rightarrow> fst (exchange E a s w0)) of
               Inl e \<Rightarrow> Inl e
             | Inr tok \<Rightarrow>
                 (case Option.bind (live E w h KRequestHeaders) as_headers of
                    Some hv \<Rightarrow> Inr hv | None \<Rightarrow> fst (build r tok w0))))"
proof -
  obtain r1 w1 where c1: "cs_value E (Cached (Direct c) h) pk w = (r1, w1)"
    by (cases "cs_value E (Cached (Direct c) h) pk w")
  have f1: "(case Option.bind (live E w h KClientSecret) as_secret of
               Some s \<Rightarrow> Inr s | None \<Rightarrow> fst (sign E c pk w0)) = r1"
    using c1 proxy_fst [of E h KClientSecret as_secret CSV ss_expires_at "sign E c pk" w]
      fst_sign [of E c pk w w0]
    by (simp split: option.splits)
  have l1: "live E w1 h KAccessToken = live E w h KAccessToken"
    "live E w1 h KRequestHeaders = live E w h KRequestHeaders"
    using cs_value_keeps_live [OF c1] by simp_all
  show ?thesis
  proof (cases r1)
    case (Inl e)
    with c1 f1 show ?thesis
      by (simp add: request_headers_value_def del: cs_value.simps)
  next
    case (Inr s)
    obtain r2 w2 where c2: "at_value E (Cached (Direct a) h) s w1 = (r2, w2)"
      by (cases "at_value E (Cached (Direct a) h) s w1")
    have f2: "(case Option.bind (live E w h KAccessToken) as_token of
                 Some tok \<Rightarrow> Inr tok | None \<Rightarrow> fst (exchange E a s w0)) = r2"
      using c2 proxy_fst [of E h KAccessToken as_token ATV atv_expires_at "exchange E a s" w1]
        fst_exchange [of E a s w1 w0] l1(1)
      by (simp split: option.splits)
    have l2: "live E w2 h KRequestHeaders = live E w h KRequestHeaders"
      using at_value_keeps_live [OF c2, of KRequestHeaders h] l1(2) by simp
    show ?thesis
    proof (cases r2)
      case (Inl e)
      with Inr c1 c2 f1 f2 show ?thesis
        by (simp add: request_headers_value_def del: cs_value.simps at_value.simps)
    next
      case tok: (Inr tok)
      have f3: "fst (rh_value E (Cached (Direct r) h) tok w2)
                  = (case Option.bind (live E w h KRequestHeaders) as_headers of
                       Some hv \<Rightarrow> Inr hv | None \<Rightarrow> fst (build r tok w0))"
        using proxy_fst [of E h KRequestHeaders as_headers RHV "\<lambda>_. atv_expires_at tok"
                "build r tok" w2] l2
        by (simp add: build_def split: option.splits)
      from Inr tok c1 c2 f1 f2 f3 show ?thesis
        by (simp add: request_headers_value_def
              del: cs_value.simps at_value.simps rh_value.simps)
    qed
  qed
qed

text \<open>
  C5, as amended. For the stages \<open>set_up_authentication\<close> builds, the pipeline with the
  caching wrappers gives the same result (the same headers, or the same exception) as
  the pipeline without them whenever every live readable cache entry is the value its
  stage computes in this run: the secret the signer returns, the token the exchanger
  returns for that secret, the headers built from that token. That is so in particular
  when no entry is live. In general the caching pipeline takes, stage by stage, the
  live readable entry when there is one and the computed value otherwise.
\<close>

theorem caching_transparent_when_entries_agree:
  assumes objs: "set_up_authentication t c = (cs, at, rh)"
  shows "((\<forall>s. Option.bind (live E w h KClientSecret) as_secret = Some s \<longrightarrow>
               fst (cs_value E cs pk w0) = Inr s)
          \<and> (\<forall>tok s. Option.bind (live E w h KAccessToken) as_token = Some tok
                  \<and> fst (cs_value E cs pk w0) = Inr s \<longrightarrow>
               fst (at_value E at s w0) = Inr tok)
          \<and> (\<forall>hv s tok. Option.bind (live E w h KRequestHeaders) as_headers = Some hv
                  \<and> fst (cs_value E cs pk w0) = Inr s \<and> fst (at_value E at s w0) = Inr tok \<longrightarrow>
               fst (rh_value E rh tok w0) = Inr hv)
          \<longrightarrow> fst (request_headers_value E (add_caching (cs, at, rh) h) pk w)
                = fst (request_headers_value E (cs, at, rh) pk w0))
       \<and> fst (request_headers_value E (add_caching (cs, at, rh) h) pk w)
           = (case (case Option.bind (live E w h KClientSecret) as_secret of
                      Some s \<Rightarrow> Inr s | None \<Rightarrow> fst (cs_value E cs pk w0)) of
                Inl e \<Rightarrow> Inl e
              | Inr s \<Rightarrow>
                  (case (case Option.bind (live E w h KAccessToken) as_token of
                           Some tok \<Rightarrow> Inr tok | None \<Rightarrow> fst (at_value E at s w0)) of
                     Inl e \<Rightarrow> Inl e
                   | Inr tok \<Rightarrow>
                       (case Option.bind (live E w h KRequestHeaders) as_headers of
                          Some hv \<Rightarrow> Inr hv | None \<Rightarrow> fst (rh_value E rh tok w0))))"
proof -
  obtain c' a' r' where d: "cs = Direct c'" "at = Direct a'" "rh = Direct r'"
    using objs by (auto simp: set_up_authentication_def)
  have cached: "fst (request_headers_value E (add_caching (cs, at, rh) h) pk w)
           = (case (case Option.bind (live E w h KClientSecret) as_secret of
                      Some s \<Rightarrow> Inr s | None \<Rightarrow> fst (cs_value E cs pk w0)) of
                Inl e \<Rightarrow> Inl e
              | Inr s \<Rightarrow>
                  (case (case Option.bind (live E w h KAccessToken) as_token of
                           Some tok \<Rightarrow> Inr tok | None \<Rightarrow> fst (at_value E at s w0)) of
                     Inl e \<Rightarrow> Inl e
                   | Inr tok \<Rightarrow>
                       (case Option.bind (live E w h KRequestHeaders) as_headers of
                          Some hv \<Rightarrow> Inr hv | None \<Rightarrow> fst (rh_value E rh tok w0))))"
    unfolding d add_caching_def prod.case cs_value.simps at_value.simps rh_value.simps
    by (rule cached_pipeline_result)
  have plain: "fst (request_headers_value E (cs, at, rh) pk w0)
           = (case fst (cs_value E cs pk w0) of
                Inl e \<Rightarrow> Inl e
              | Inr s \<Rightarrow>
                  (case fst (at_value E at s w0) of
                     Inl e \<Rightarrow> Inl e
                   | Inr tok \<Rightarrow> fst (rh_value E rh tok w0)))"
    unfolding d cs_value.simps at_value.simps rh_value.simps
    by (rule plain_pipeline_result)
  have "fst (request_headers_value E (add_caching (cs, at, rh) h) pk w)
          = fst (request_headers_value E (cs, at, rh) pk w0)"
    if h1: "\<forall>s. Option.bind (live E w h KClientSecret) as_secret = Some s \<longrightarrow>
               fst (cs_value E cs pk w0) = Inr s"
      and h2: "\<forall>tok s. Option.bind (live E w h KAccessToken) as_token = Some tok
                  \<and> fst (cs_value E cs pk w0) = Inr s \<longrightarrow>
               fst (at_value E at s w0) = Inr tok"
      and h3: "\<forall>hv s tok. Option.bind (live E w h KRequestHeaders) as_headers = Some hv
                  \<and> fst (cs_value E cs pk w0) = Inr s \<and> fst (at_value E at s w0) = Inr tok \<longrightarrow>
               fst (rh_value E rh tok w0) = Inr hv"
  proof -
    have s: "(case Option.bind (live E w h KClientSecret) as_secret of
                Some s \<Rightarrow> Inr s | None \<Rightarrow> fst (cs_value E cs pk w0))
             = fst (cs_value E cs pk w0)"
      using h1 by (simp split: option.splits)
    have x: "(case Option.bind (live E w h KAccessToken) as_token of
                Some tok \<Rightarrow> Inr tok | None \<Rightarrow> fst (at_value E at s w0))
             = fst (at_value E at s w0)"
      if "fst (cs_value E cs pk w0) = Inr s" for s
      using h2 that by (simp split: option.splits)
    have b: "(case Option.bind (live E w h KRequestHeaders) as_headers of
                Some hv \<Rightarrow> Inr hv | None \<Rightarrow> fst (rh_value E rh tok w0))
             = fst (rh_value E rh tok w0)"
      if "fst (cs_value E cs pk w0) = Inr s" "fst (at_value E at s w0) = Inr tok" for s tok
      using h3 that by (simp split: option.splits)
    show ?thesis
    proof (cases "fst (cs_value E cs pk w0)")
      case (Inl e)
      show ?thesis unfolding cached plain s by (simp add: Inl)
    next
      case s': (Inr s)
      show ?thesis
      proof (cases "fst (at_value E at s w0)")
        case (Inl e)
        show ?thesis unfolding cached plain s by (simp add: s' x [OF s'] Inl)
      next
        case (Inr tok)
        show ?thesis unfolding cached plain s
          by (simp add: s' x [OF s'] b [OF s' Inr] Inr)
      qed
    qed
  qed
  with cached show ?thesis by blast
qed

theorem caching_transparent_when_entries_agree_witness:
  "set_up_authentication 0 (auth0 True) = (cs0, at0, rh0)
   \<and> Option.bind (live env0 world2 ''/tmp/auth'' KClientSecret) as_secret
       = Some \<lparr>ss_token = ''s0'', ss_issued_at = 0, ss_expires_at = 1200\<rparr>
   \<and> fst (cs_value env0 cs0 ''inline-key'' world0)
       = Inr \<lparr>ss_token = ''s0'', ss_issued_at = 0, ss_expires_at = 1200\<rparr>
   \<and> Option.bind (live env0 world2 ''/tmp/auth'' KAccessToken) as_token
       = Some \<lparr>atv_token = ''s0'', atv_expires_at = 3600\<rparr>
   \<and> fst (at_value env0 at0 \<lparr>ss_token = ''s0'', ss_issued_at = 0, ss_expires_at = 1200\<rparr> world0)
       = Inr \<lparr>atv_token = ''s0'', atv_expires_at = 3600\<rparr>
   \<and> Option.bind (live env0 world2 ''/tmp/auth'' KRequestHeaders) as_headers = Some headers0
   \<and> fst (rh_value env0 rh0 \<lparr>atv_token = ''s0'', atv_expires_at = 3600\<rparr> world0) = Inr headers0
   \<and> fst (request_headers_value env0 (add_caching (cs0, at0, rh0) ''/tmp/auth'') ''inline-key''
             world2)
       = fst (request_headers_value env0 (cs0, at0, rh0) ''inline-key'' world0)
   \<and> fst (request_headers_value env0 (cs0, at0, rh0) ''inline-key'' world0) = Inr headers0
   \<and> Option.bind (live env0 world1 ''/tmp/auth'' KClientSecret) as_secret = None
   \<and> Option.bind (live env0 world1 ''/tmp/auth'' KAccessToken) as_token = None
   \<and> Option.bind (live env0 world1 ''/tmp/auth'' KRequestHeaders) as_headers = None
   \<and> fst (request_headers_value env0 (add_caching (cs0, at0, rh0) ''/tmp/auth'') ''inline-key''
             world1)
       = fst (request_headers_value env0 (cs0, at0, rh0) ''inline-key'' world0)"
proof -
  let ?s = "\<lparr>ss_token = ''s0'', ss_issued_at = 0, ss_expires_at = 1200\<rparr>"
  let ?tok = "\<lparr>atv_token = ''s0'', atv_expires_at = 3600\<rparr>"
  have o: "set_up_authentication 0 (auth0 True) = (cs0, at0, rh0)"
    by (simp add: set_up_authentication_def auth0_def cs0_def at0_def rh0_def)
  have l2: "Option.bind (live env0 world2 ''/tmp/auth'' KClientSecret) as_secret = Some ?s"
    "Option.bind (live env0 world2 ''/tmp/auth'' KAccessToken) as_token = Some ?tok"
    "Option.bind (live env0 world2 ''/tmp/auth'' KRequestHeaders) as_headers = Some headers0"
    by (simp_all add: live_def shelf_store_def world2_def env0_def headers0_def)
  have l1: "Option.bind (live env0 world1 ''/tmp/auth'' KClientSecret) as_secret = None"
    "Option.bind (live env0 world1 ''/tmp/auth'' KAccessToken) as_token = None"
    "Option.bind (live env0 world1 ''/tmp/auth'' KRequestHeaders) as_headers = None"
    by (simp_all add: live_def shelf_store_def world1_def)
  have c: "fst (cs_value env0 cs0 ''inline-key'' world0) = Inr ?s"
    by (simp add: cs0_def sign_def env0_def)
  have a: "fst (at_value env0 at0 ?s world0) = Inr ?tok"
    by (simp add: at0_def exchange_def env0_def)
  have r: "fst (rh_value env0 rh0 ?tok world0) = Inr headers0"
    by (simp add: rh0_def build_def headers0_def)
  have p: "fst (request_headers_value env0 (cs0, at0, rh0) ''inline-key'' world0) = Inr headers0"
    by (simp add: request_headers_value_def cs0_def at0_def rh0_def sign_def exchange_def
        build_def env0_def headers0_def)
  have e2: "fst (request_headers_value env0 (add_caching (cs0, at0, rh0) ''/tmp/auth'')
                   ''inline-key'' world2)
              = fst (request_headers_value env0 (cs0, at0, rh0) ''inline-key'' world0)"
    using caching_transparent_when_entries_agree
            [OF o, of env0 world2 "''/tmp/auth''" "''inline-key''" world0, THEN conjunct1]
      l2 c a r
    by simp
  have e1: "fst (request_headers_value env0 (add_caching (cs0, at0, rh0) ''/tmp/auth'')
                   ''inline-key'' world1)
              = fst (request_headers_value env0 (cs0, at0, rh0) ''inline-key'' world0)"
    using caching_transparent_when_entries_agree
            [OF o, of env0 world1 "''/tmp/auth''" "''inline-key''" world0, THEN conjunct1]
      l1
    by simp
  from o l2 c a r e2 p l1 e1 show ?thesis by (intro conjI)
qed

text \<open>
  C5 as stated fails: a first caching run at timestamp 0 fills the shelf; at instant 1,
  with every entry still live, the caching run returns the stored headers
  (\<open>Bearer s0\<close>) while the run without caching signs and exchanges again and returns
  \<open>Bearer s1\<close>.
\<close>

theorem caching_changes_headers:
  "do_sync_headers env0 0 config0 world0 = (Inr (auth0 True, headers0), world2)
   \<and> fst (do_sync_headers env1 1 config0 (world2\<lparr>cache_global := None\<rparr>))
       = Inr (auth0 True, \<lparr>rhv_org_id = ''org1'', rhv_authorization = ''Bearer s0''\<rparr>)
   \<and> fst (do_sync_headers env1 1 config_nocache (world2\<lparr>cache_global := None\<rparr>))
       = Inr (auth0 False, \<lparr>rhv_org_id = ''org1'', rhv_authorization = ''Bearer s1''\<rparr>)"
  by (simp add: run_defs cache_defs path_defs env0_def config0_def world0_def auth0_def
      env1_def world2_def headers0_def config_nocache_def)

subsection \<open>One headers value for the whole run\<close>

text \<open>Syncing streams logs stream events for the headers it was given, and nothing else.\<close>

lemma write_records_extends:
  "extends (stream_event v) w (snd (write_records n conv rs w))"
proof (induction rs arbitrary: w)
  case Nil
  show ?case by simp
next
  case (Cons r rs)
  show ?case
  proof (cases "conv r")
    case (Inl e)
    then show ?thesis by simp
  next
    case (Inr r')
    have "extends (stream_event v) (emit (WriteRecord n r') w)
            (snd (write_records n conv rs (emit (WriteRecord n r') w)))"
      by (rule Cons.IH)
    then show ?thesis using Inr by (auto simp: extends_def)
  qed
qed

lemma write_records_after_emit:
  "stream_event v e \<Longrightarrow>
   extends (stream_event v) w (snd (write_records n conv rs (emit e w)))"
  using write_records_extends [of v "emit e w" n conv rs]
  by (auto simp: extends_def)

lemma fetch_and_write_extends:
  "extends (stream_event v) w (snd (snd (fetch_and_write n api fetch v conv state a w)))"
proof (cases "fetch v")
  case (Inl e)
  then show ?thesis by (simp add: fetch_and_write_def call_api_def extends_emit)
next
  case (Inr rs)
  have "extends (stream_event v) w (snd (write_records n conv rs (emit (ApiCall api v) w)))"
    by (rule write_records_after_emit) simp
  then show ?thesis using Inr
    by (cases "write_records n conv rs (emit (ApiCall api v) w)")
       (auto simp: fetch_and_write_def call_api_def split: sum.splits)
qed

lemma sync_impression_share_extends:
  "extends (stream_event v) w (snd (snd (sync_impression_share E state n v a w)))"
proof -
  define start where "start =
    (case get_bookmark state n ''date'' of
       None \<Rightarrow> Inr a
     | Some current_bookmark_value \<Rightarrow>
         (case strptime_to_utc E current_bookmark_value of
            Inl e \<Rightarrow> Inl e
          | Inr t \<Rightarrow> Inr (a\<lparr>ad_start_time := Some (t + 86400)\<rparr>)))"
  show ?thesis
  proof (cases start)
    case (Inl e)
    then show ?thesis
      unfolding sync_impression_share_def start_def [symmetric] by simp
  next
    case (Inr a1)
    define a2 where "a2 = (if ad_end_time a1 = None
                           then a1\<lparr>ad_end_time := Some (today E - 86400)\<rparr> else a1)"
    define w1 where "w1 = emit (ApiCall ''impression_share_reports.sync'' v) w"
    have e1: "extends (stream_event v) w w1"
      by (simp add: w1_def extends_emit)
    have e2: "extends (stream_event v) w (snd (write_records n Inr rs w1))" for rs
      unfolding w1_def by (rule write_records_after_emit) simp
    show ?thesis
      unfolding sync_impression_share_def start_def [symmetric] Inr sum.case Let_def
        a2_def [symmetric] call_api_def w1_def [symmetric]
      using e1 e2 by (simp split: sum.splits)
  qed
qed

lemma sync_concrete_stream_extends:
  "extends (stream_event v) w (snd (snd (sync_concrete_stream E state n v a w)))"
  unfolding sync_concrete_stream_def
  by (simp only: fetch_and_write_extends sync_impression_share_extends extends_refl
        snd_conv if_split [where P = "\<lambda>r. extends (stream_event v) w (snd (snd r))"])
     simp

lemma sync_stream_extends:
  "extends (stream_event v) w (snd (snd (sync_stream E n stream state v a w)))"
proof (cases "selected stream")
  case False
  then show ?thesis by (simp add: sync_stream_def)
next
  case True
  have "extends (stream_event v) (emit (WriteSchema n) w)
          (snd (snd (sync_concrete_stream E state n v a (emit (WriteSchema n) w))))"
    by (rule sync_concrete_stream_extends)
  then have e: "extends (stream_event v) w
          (snd (snd (sync_concrete_stream E state n v a (emit (WriteSchema n) w))))"
    by (auto simp: extends_def)
  show ?thesis
  proof (cases "sync_concrete_stream E state n v a (emit (WriteSchema n) w)")
    case (fields r a' w')
    with e have "extends (stream_event v) w w'" by simp
    moreover have "\<And>s. extends (stream_event v) w' (emit (WriteState s) w')"
      by (simp add: extends_emit)
    ultimately show ?thesis using True fields
      by (auto simp: sync_stream_def split: sum.splits intro: extends_trans)
  qed
qed

lemma sync_streams_extends:
  "extends (stream_event v) w (snd (snd (sync_streams E streams state v a w)))"
proof (induction streams arbitrary: state a w)
  case Nil
  show ?case by simp
next
  case (Cons stream streams)
  show ?case
  proof (cases "sync_stream E (tap_stream_id stream) stream state v a w")
    case (fields r a' w')
    have e: "extends (stream_event v) w w'"
      using sync_stream_extends [of v w E "tap_stream_id stream" stream state a] fields by simp
    show ?thesis
    proof (cases r)
      case (Inl err)
      with fields e show ?thesis by simp
    next
      case (Inr state')
      with fields e Cons.IH [of w' state' a'] show ?thesis
        by (auto intro: extends_trans)
    qed
  qed
qed

text \<open>
  The calls of the API a sync makes: one call of the stream's fetcher with the headers,
  unless it raises before the call; none for a stream that is not selected.
\<close>

lemma calls_emit [simp]:
  "calls (emit e w) = calls w @ (if is_api_call e then [e] else [])"
  by (simp add: calls_def)

lemma write_records_calls [simp]: "calls (snd (write_records n conv rs w)) = calls w"
proof (induction rs arbitrary: w)
  case Nil
  show ?case by simp
next
  case (Cons r rs)
  show ?case by (cases "conv r") (simp_all add: Cons.IH)
qed

lemma fetch_and_write_calls:
  "calls (snd (snd (fetch_and_write n api fetch v conv state a w))) = calls w @ [ApiCall api v]"
proof (cases "fetch v")
  case (Inl e)
  then show ?thesis by (simp add: fetch_and_write_def call_api_def)
next
  case (Inr rs)
  have "calls (snd (write_records n conv rs (emit (ApiCall api v) w))) = calls w @ [ApiCall api v]"
    by simp
  then show ?thesis using Inr
    by (cases "write_records n conv rs (emit (ApiCall api v) w)")
       (auto simp: fetch_and_write_def call_api_def split: sum.splits)
qed

lemma sync_impression_share_calls:
  assumes "sync_impression_share E state n v a w = (r, a', w')"
  shows "(calls w' = calls w \<and> (\<exists>e. r = Inl e))
       \<or> calls w' = calls w @ [ApiCall ''impression_share_reports.sync'' v]"
proof -
  define start where "start =
    (case get_bookmark state n ''date'' of
       None \<Rightarrow> Inr a
     | Some current_bookmark_value \<Rightarrow>
         (case strptime_to_utc E current_bookmark_value of
            Inl e \<Rightarrow> Inl e
          | Inr t \<Rightarrow> Inr (a\<lparr>ad_start_time := Some (t + 86400)\<rparr>)))"
  show ?thesis
  proof (cases start)
    case (Inl e)
    then show ?thesis
      using assms unfolding sync_impression_share_def start_def [symmetric] by auto
  next
    case (Inr a1)
    define a2 where "a2 = (if ad_end_time a1 = None
                           then a1\<lparr>ad_end_time := Some (today E - 86400)\<rparr> else a1)"
    define w1 where "w1 = emit (ApiCall ''impression_share_reports.sync'' v) w"
    have c1: "calls w1 = calls w @ [ApiCall ''impression_share_reports.sync'' v]"
      by (simp add: w1_def)
    have c2: "calls (snd (write_records n Inr rs w1))
                = calls w @ [ApiCall ''impression_share_reports.sync'' v]" for rs
      by (simp add: c1)
    have "calls w' = calls w @ [ApiCall ''impression_share_reports.sync'' v]"
      using assms
      unfolding sync_impression_share_def start_def [symmetric] Inr sum.case Let_def
        a2_def [symmetric] call_api_def w1_def [symmetric]
      using c1 c2 by (auto split: sum.splits)
    then show ?thesis by simp
  qed
qed

lemma sync_concrete_stream_calls:
  assumes "sync_concrete_stream E state n v a w = (r, a', w')"
  shows "(calls w' = calls w \<and> (\<exists>e. r = Inl e)) \<or> calls w' = calls w @ [ApiCall (api_of n) v]"
proof -
  consider "n = ''campaign''" | "n = ''campaign_flat''" | "n = ''campaign_level_reports''"
    | "n = ''campaign_level_reports_extended_spend_row''"
    | "n = ''campaign_level_reports_extended_spend_row_flat''"
    | "n = ''impression_share_reports''" | "n \<notin> set STREAMS"
    by (auto simp: STREAMS_def)
  then show ?thesis
  proof cases
    case 7
    with assms sync_concrete_stream_not_known [OF 7, of E state v a w] show ?thesis by auto
  next
    case 6
    with assms sync_impression_share_calls [of E state n v a w r a' w'] show ?thesis
      by (simp add: sync_concrete_stream_def api_of_def)
  next
    case 1
    with assms fetch_and_write_calls [of n "''campaign.sync''" "campaign_sync E" v Inr state a w]
    show ?thesis by (simp add: sync_concrete_stream_def api_of_def)
  next
    case 2
    with assms
      fetch_and_write_calls [of n "''campaign.sync''" "campaign_sync E" v "campaign_to_schema E"
        state a w]
    show ?thesis by (simp add: sync_concrete_stream_def api_of_def)
  next
    case 3
    with assms
      fetch_and_write_calls [of n "''campaign_level_reports.sync''"
        "\<lambda>h. reports_sync E h (ad_start_time a) (ad_end_time a) (ad_selector a)" v Inr state a w]
    show ?thesis by (simp add: sync_concrete_stream_def api_of_def)
  next
    case 4
    with assms
      fetch_and_write_calls [of n "''campaign_level_reports.sync_extended_spend_row''"
        "\<lambda>h. reports_sync_extended_spend_row E h (ad_start_time a) (ad_end_time a)
               (ad_selector a)" v Inr state a w]
    show ?thesis by (simp add: sync_concrete_stream_def api_of_def)
  next
    case 5
    with assms
      fetch_and_write_calls [of n "''campaign_level_reports.sync_extended_spend_row''"
        "\<lambda>h. reports_sync_extended_spend_row E h (ad_start_time a) (ad_end_time a)
               (ad_selector a)" v "reports_flatten E" state a w]
    show ?thesis by (simp add: sync_concrete_stream_def api_of_def)
  qed
qed

lemma sync_stream_calls:
  assumes "sync_stream E (tap_stream_id stream) stream state v a w = (r, a', w')"
  shows "\<exists>made rest. calls w' = calls w @ made \<and> expected_calls v [stream] = made @ rest
           \<and> ((\<forall>e. r \<noteq> Inl e) \<longrightarrow> rest = [])"
proof (cases "selected stream")
  case False
  with assms show ?thesis by (auto simp: sync_stream_def expected_calls_def)
next
  case True
  let ?n = "tap_stream_id stream"
  obtain r1 a1 w1 where c: "sync_concrete_stream E state ?n v a (emit (WriteSchema ?n) w)
                              = (r1, a1, w1)"
    by (cases "sync_concrete_stream E state ?n v a (emit (WriteSchema ?n) w)")
  have w': "calls w' = calls w1 \<and> ((\<forall>e. r \<noteq> Inl e) \<longrightarrow> (\<forall>e. r1 \<noteq> Inl e))"
    using assms True c by (auto simp: sync_stream_def split: sum.splits)
  from sync_concrete_stream_calls [OF c]
  have "(calls w1 = calls w \<and> (\<exists>e. r1 = Inl e)) \<or> calls w1 = calls w @ [ApiCall (api_of ?n) v]"
    by simp
  then show ?thesis
  proof
    assume "calls w1 = calls w \<and> (\<exists>e. r1 = Inl e)"
    with w' True show ?thesis
      by (intro exI [of _ "[]"] exI [of _ "[ApiCall (api_of ?n) v]"])
         (auto simp: expected_calls_def)
  next
    assume "calls w1 = calls w @ [ApiCall (api_of ?n) v]"
    with w' True show ?thesis
      by (intro exI [of _ "[ApiCall (api_of ?n) v]"] exI [of _ "[]"])
         (auto simp: expected_calls_def)
  qed
qed

lemma expected_calls_Cons:
  "expected_calls v (stream # streams) = expected_calls v [stream] @ expected_calls v streams"
  by (simp add: expected_calls_def)

lemma sync_streams_calls:
  assumes "sync_streams E streams state v a w = (r, a', w')"
  shows "\<exists>made rest. calls w' = calls w @ made \<and> expected_calls v streams = made @ rest
           \<and> ((\<forall>e. r \<noteq> Inl e) \<longrightarrow> rest = [])"
  using assms
proof (induction streams arbitrary: state a w r a' w')
  case Nil
  then show ?case by (auto simp: expected_calls_def)
next
  case (Cons stream streams)
  obtain r1 a1 w1 where s: "sync_stream E (tap_stream_id stream) stream state v a w = (r1, a1, w1)"
    by (cases "sync_stream E (tap_stream_id stream) stream state v a w")
  from sync_stream_calls [OF s]
  obtain made1 rest1 where m1: "calls w1 = calls w @ made1"
    "expected_calls v [stream] = made1 @ rest1" "(\<forall>e. r1 \<noteq> Inl e) \<longrightarrow> rest1 = []"
    by blast
  show ?case
  proof (cases r1)
    case (Inl e)
    with Cons.prems s have "w' = w1" "r = Inl e" by simp_all
    with m1 show ?thesis
      by (intro exI [of _ made1] exI [of _ "rest1 @ expected_calls v streams"])
         (simp add: expected_calls_Cons [of v stream streams])
  next
    case (Inr state1)
    with Cons.prems s have t: "sync_streams E streams state1 v a1 w1 = (r, a', w')" by simp
    from Cons.IH [OF t]
    obtain made2 rest2 where m2: "calls w' = calls w1 @ made2"
      "expected_calls v streams = made2 @ rest2" "(\<forall>e. r \<noteq> Inl e) \<longrightarrow> rest2 = []"
      by blast
    from Inr m1 have "rest1 = []" by simp
    with m1 m2 show ?thesis
      by (intro exI [of _ "made1 @ made2"] exI [of _ rest2])
         (simp add: expected_calls_Cons [of v stream streams])
  qed
qed

lemma stage_events_no_calls: "list_all stage_event evs \<Longrightarrow> filter is_api_call evs = []"
proof (induction evs)
  case Nil
  show ?case by simp
next
  case (Cons e evs)
  then show ?case by (cases e) simp_all
qed

lemma do_sync_after_headers:
  assumes "do_sync_headers E t config w = (Inr (c, v), w3)"
  shows "snd (do_sync E t config catalog state w)
           = snd (snd (sync_streams E catalog state v
                         \<lparr>ad_start_time = start_time c, ad_end_time = end_time c,
                          ad_selector = selector c\<rparr> w3))"
    and "fst (do_sync E t config catalog state w) = Inr 0
           \<longleftrightarrow> (\<forall>e. fst (sync_streams E catalog state v
                             \<lparr>ad_start_time = start_time c, ad_end_time = end_time c,
                              ad_selector = selector c\<rparr> w3) \<noteq> Inl e)"
  using assms by (auto simp: do_sync_def split: prod.splits sum.splits)

text \<open>
  C4. In every run the headers are computed by the authentication part of \<open>do_sync\<close>.
  When it returns the value \<open>v\<close>, its log is the reading of the clock, then stage
  events, then the one event of \<open>v\<close> being assigned; everything the run logs afterwards
  is a stream event for \<open>v\<close> (schema, record and state messages, and API calls that all
  carry \<open>v\<close>), so no stage is evaluated again. The API calls of the run are made in the
  order of the catalog, one per selected stream, each the stream's fetcher applied to
  \<open>v\<close>: a run that ends with an exception has made a first part of them, a run that
  returns has made them all. When the authentication part raises, the run ends there
  and no stream is synced. The whole run invokes the signer, the token exchanger and
  the header builder at most once each.
\<close>

theorem headers_computed_once:
  "(\<forall>c v w3. do_sync_headers E t config w = (Inr (c, v), w3) \<longrightarrow>
       (\<exists>evs. events w3 = events w @ ClockRead t # evs @ [Evaluated v]
              \<and> list_all stage_event evs)
       \<and> extends (stream_event v) w3 (snd (do_sync E t config catalog state w))
       \<and> (\<exists>made rest.
             calls (snd (do_sync E t config catalog state w)) = calls w @ made
             \<and> expected_calls v catalog = made @ rest
             \<and> (fst (do_sync E t config catalog state w) = Inr 0 \<longrightarrow> rest = [])))
   \<and> (\<forall>e w3. do_sync_headers E t config w = (Inl e, w3) \<longrightarrow>
       do_sync E t config catalog state w = (Inl e, w3) \<and> calls w3 = calls w)
   \<and> invocations Signed (snd (do_sync E t config catalog state w)) \<le> invocations Signed w + 1
   \<and> invocations Exchanged (snd (do_sync E t config catalog state w))
       \<le> invocations Exchanged w + 1
   \<and> invocations Built (snd (do_sync E t config catalog state w)) \<le> invocations Built w + 1"
proof -
  have log: "\<exists>evs. list_all stage_event evs
               \<and> (case r of
                     Inl x \<Rightarrow> events w3 = events w @ ClockRead t # evs
                   | Inr (c, v) \<Rightarrow> events w3 = events w @ ClockRead t # evs @ [Evaluated v])"
    if "do_sync_headers E t config w = (r, w3)" for r w3
  proof -
    from do_sync_headers_log [OF that, of Signed]
    obtain w' where e: "extends stage_event (emit (ClockRead t) w) w'"
      and r: "case r of Inl x \<Rightarrow> w3 = w' | Inr (c, v) \<Rightarrow> w3 = emit (Evaluated v) w'"
      by auto
    from e obtain evs where "events w' = events w @ ClockRead t # evs" "list_all stage_event evs"
      by (auto simp: extends_def)
    with r show ?thesis
      by (intro exI [of _ evs]) (auto split: sum.splits)
  qed
  have bound: "invocations e (snd (do_sync E t config catalog state w)) \<le> invocations e w + 1"
    if e: "e \<in> {Signed, Exchanged, Built}" for e
  proof -
    obtain r w3 where h: "do_sync_headers E t config w = (r, w3)"
      by (cases "do_sync_headers E t config w")
    from do_sync_headers_log [OF h e]
    obtain w' where b: "invocations e w' \<le> invocations e w + 1"
      and r: "case r of Inl x \<Rightarrow> w3 = w' | Inr (c, v) \<Rightarrow> w3 = emit (Evaluated v) w'"
      by auto
    show ?thesis
    proof (cases r)
      case (Inl x)
      with h b r show ?thesis by (simp add: do_sync_def)
    next
      case (Inr cv)
      obtain c v where cv: "cv = (c, v)" by (cases cv)
      from Inr cv r b e have b3: "invocations e w3 \<le> invocations e w + 1" by auto
      have "extends (stream_event v) w3 (snd (do_sync E t config catalog state w))"
        using h Inr cv by (simp add: do_sync_after_headers(1) sync_streams_extends)
      then have "invocations e (snd (do_sync E t config catalog state w)) = invocations e w3"
        by (rule extends_invocations) (use e in auto)
      with b3 show ?thesis by simp
    qed
  qed
  show ?thesis
  proof (intro conjI allI impI)
    fix c v w3
    assume h: "do_sync_headers E t config w = (Inr (c, v), w3)"
    from log [OF h]
    obtain evs where evs: "events w3 = events w @ ClockRead t # evs @ [Evaluated v]"
      and st: "list_all stage_event evs"
      by auto
    then show "\<exists>evs. events w3 = events w @ ClockRead t # evs @ [Evaluated v]
                 \<and> list_all stage_event evs"
      by blast
    show "extends (stream_event v) w3 (snd (do_sync E t config catalog state w))"
      by (simp add: do_sync_after_headers(1) [OF h] sync_streams_extends)
    have c3: "calls w3 = calls w"
      using evs stage_events_no_calls [OF st] by (simp add: calls_def)
    let ?a = "\<lparr>ad_start_time = start_time c, ad_end_time = end_time c, ad_selector = selector c\<rparr>"
    obtain r a' w4 where s: "sync_streams E catalog state v ?a w3 = (r, a', w4)"
      by (cases "sync_streams E catalog state v ?a w3")
    from sync_streams_calls [OF s]
    obtain made rest where m: "calls w4 = calls w3 @ made" "expected_calls v catalog = made @ rest"
      "(\<forall>e. r \<noteq> Inl e) \<longrightarrow> rest = []"
      by blast
    have "snd (do_sync E t config catalog state w) = w4"
      using do_sync_after_headers(1) [OF h, of catalog state] s by simp
    moreover have "fst (do_sync E t config catalog state w) = Inr 0 \<longleftrightarrow> (\<forall>e. r \<noteq> Inl e)"
      using do_sync_after_headers(2) [OF h, of catalog state] s by simp
    ultimately show "\<exists>made rest.
             calls (snd (do_sync E t config catalog state w)) = calls w @ made
             \<and> expected_calls v catalog = made @ rest
             \<and> (fst (do_sync E t config catalog state w) = Inr 0 \<longrightarrow> rest = [])"
      using m c3 by (intro exI [of _ made] exI [of _ rest]) simp
  next
    fix e w3
    assume h: "do_sync_headers E t config w = (Inl e, w3)"
    then show "do_sync E t config catalog state w = (Inl e, w3)"
      by (simp add: do_sync_def)
    from log [OF h]
    obtain evs where "events w3 = events w @ ClockRead t # evs" "list_all stage_event evs"
      by auto
    then show "calls w3 = calls w"
      using stage_events_no_calls [of evs] by (simp add: calls_def)
  next
    show "invocations Signed (snd (do_sync E t config catalog state w)) \<le> invocations Signed w + 1"
      by (rule bound) simp
    show "invocations Exchanged (snd (do_sync E t config catalog state w))
            \<le> invocations Exchanged w + 1"
      by (rule bound) simp
    show "invocations Built (snd (do_sync E t config catalog state w)) \<le> invocations Built w + 1"
      by (rule bound) simp
  qed
qed

theorem headers_computed_once_witness:
  "do_sync_headers env0 0 config0 world0 = (Inr (auth0 True, headers0), world2)
   \<and> events world2
       = events world0 @ ClockRead 0
           # [ShelveOpen ''/tmp/auth'', Signed, CacheWrite KClientSecret, Exchanged,
              CacheWrite KAccessToken, Built, CacheWrite KRequestHeaders]
           @ [Evaluated headers0]
   \<and> extends (stream_event headers0) world2 (snd (do_sync env0 0 config0 catalog0 [] world0))
   \<and> fst (do_sync env0 0 config0 catalog0 [] world0) = Inr 0
   \<and> calls (snd (do_sync env0 0 config0 catalog0 [] world0))
       = [ApiCall ''campaign.sync'' headers0, ApiCall ''campaign.sync'' headers0]
   \<and> expected_calls headers0 catalog0
       = [ApiCall ''campaign.sync'' headers0, ApiCall ''campaign.sync'' headers0]
   \<and> fst (do_sync env0 0 config0 catalog1 [] world0) = Inr 0
   \<and> calls (snd (do_sync env0 0 config0 catalog1 [] world0))
       = [ApiCall ''impression_share_reports.sync'' headers0,
          ApiCall ''campaign_level_reports.sync'' headers0]
   \<and> expected_calls headers0 catalog1
       = [ApiCall ''impression_share_reports.sync'' headers0,
          ApiCall ''campaign_level_reports.sync'' headers0]
   \<and> fst (do_sync env0 0 config0 catalog2 [] world0)
       = Inl (TapAppleSearchAdsException ''Unknown stream: [keywords]'')
   \<and> calls (snd (do_sync env0 0 config0 catalog2 [] world0)) = [ApiCall ''campaign.sync'' headers0]
   \<and> expected_calls headers0 catalog2
       = [ApiCall ''campaign.sync'' headers0, ApiCall ''impression_share_reports.sync'' headers0,
          ApiCall ''campaign.sync'' headers0]
   \<and> invocations Signed (snd (do_sync env0 0 config0 catalog0 [] world0)) \<le> 1
   \<and> invocations Exchanged (snd (do_sync env0 0 config0 catalog0 [] world0)) \<le> 1
   \<and> invocations Built (snd (do_sync env0 0 config0 catalog0 [] world0)) \<le> 1
   \<and> do_sync_headers env401 0 config0 world0
       = (Inl (AuthExchangeError (Some 401) ''denied''), world401)
   \<and> do_sync env401 0 config0 catalog0 [] world0
       = (Inl (AuthExchangeError (Some 401) ''denied''), world401)
   \<and> calls world401 = []"
proof -
  have h: "do_sync_headers env0 0 config0 world0 = (Inr (auth0 True, headers0), world2)"
    by (simp add: run_defs cache_defs path_defs env0_def config0_def world0_def auth0_def
        world2_def headers0_def)
  have f: "do_sync_headers env401 0 config0 world0
       = (Inl (AuthExchangeError (Some 401) ''denied''), world401)"
    by (simp add: run_defs cache_defs path_defs env0_def config0_def world0_def auth0_def
        env401_def world401_def)
  have w0: "events world0 = []" "calls world0 = []"
    "invocations Signed world0 = 0" "invocations Exchanged world0 = 0"
    "invocations Built world0 = 0"
    by (simp_all add: world0_def calls_def invocations_def)
  have x: "expected_calls headers0 catalog0
       = [ApiCall ''campaign.sync'' headers0, ApiCall ''campaign.sync'' headers0]"
    "expected_calls headers0 catalog1
       = [ApiCall ''impression_share_reports.sync'' headers0,
          ApiCall ''campaign_level_reports.sync'' headers0]"
    "expected_calls headers0 catalog2
       = [ApiCall ''campaign.sync'' headers0, ApiCall ''impression_share_reports.sync'' headers0,
          ApiCall ''campaign.sync'' headers0]"
    by (simp_all add: expected_calls_def api_of_def catalog0_def catalog1_def catalog2_def)
  have r0: "fst (do_sync env0 0 config0 catalog0 [] world0) = Inr 0"
    and r1: "fst (do_sync env0 0 config0 catalog1 [] world0) = Inr 0"
    and r2: "fst (do_sync env0 0 config0 catalog2 [] world0)
               = Inl (TapAppleSearchAdsException ''Unknown stream: [keywords]'')"
    and c2: "calls (snd (do_sync env0 0 config0 catalog2 [] world0))
               = [ApiCall ''campaign.sync'' headers0]"
    unfolding do_sync_def h
    by (simp_all add: catalog0_def catalog1_def catalog2_def sync_stream_def
        sync_concrete_stream_def sync_impression_share_def fetch_and_write_def call_api_def
        get_bookmark_def write_bookmark_def max_report_date_def env0_def calls_def world2_def)
  note T0 = headers_computed_once [of env0 0 config0 world0 catalog0 "[]"]
  note T1 = headers_computed_once [of env0 0 config0 world0 catalog1 "[]"]
  note T4 = headers_computed_once [of env401 0 config0 world0 catalog0 "[]"]
  from T0 h have e0: "events world2
       = events world0 @ ClockRead 0
           # [ShelveOpen ''/tmp/auth'', Signed, CacheWrite KClientSecret, Exchanged,
              CacheWrite KAccessToken, Built, CacheWrite KRequestHeaders]
           @ [Evaluated headers0]"
    by (simp add: world0_def world2_def headers0_def)
  from T0 h have s0: "extends (stream_event headers0) world2
                         (snd (do_sync env0 0 config0 catalog0 [] world0))"
    by blast
  from T0 h r0 obtain made where "calls (snd (do_sync env0 0 config0 catalog0 [] world0))
                                    = calls world0 @ made"
    "expected_calls headers0 catalog0 = made"
    by fastforce
  with w0 x have c0: "calls (snd (do_sync env0 0 config0 catalog0 [] world0))
       = [ApiCall ''campaign.sync'' headers0, ApiCall ''campaign.sync'' headers0]"
    by simp
  from T1 h r1 obtain made where "calls (snd (do_sync env0 0 config0 catalog1 [] world0))
                                    = calls world0 @ made"
    "expected_calls headers0 catalog1 = made"
    by fastforce
  with w0 x have c1: "calls (snd (do_sync env0 0 config0 catalog1 [] world0))
       = [ApiCall ''impression_share_reports.sync'' headers0,
          ApiCall ''campaign_level_reports.sync'' headers0]"
    by simp
  from T0 w0 have b: "invocations Signed (snd (do_sync env0 0 config0 catalog0 [] world0)) \<le> 1"
    "invocations Exchanged (snd (do_sync env0 0 config0 catalog0 [] world0)) \<le> 1"
    "invocations Built (snd (do_sync env0 0 config0 catalog0 [] world0)) \<le> 1"
    by simp_all
  from T4 f have g: "do_sync env401 0 config0 catalog0 [] world0
       = (Inl (AuthExchangeError (Some 401) ''denied''), world401)"
    "calls world401 = calls world0"
    by blast+
  from h e0 s0 r0 c0 x r1 c1 r2 c2 b f g w0 show ?thesis by simp
qed

end
